theory Spec2Isabelle
  imports Complex_Main "HOL-Library.Log_Nat" "HOL-Library.Multiset"
begin

section \<open>Python floats\<close>

text \<open>
  The fusion code of \<^verbatim>\<open>backend/services/multimodal_service.py\<close> computes with Python
  floats, that is IEEE 754 binary64 numbers. A finite float is modelled by the rational
  number it denotes, and every arithmetic operation is the exact operation followed by
  rounding to the nearest binary64 number, ties to the even significand (\<open>fl\<close>), with
  gradual underflow (the spacing never drops below \<open>2 powi - 1074\<close>). Overflow to infinity
  and NaN are outside the model: no result reaches \<open>2 powi 1024\<close> when the inputs are
  probabilities and confidences.
\<close>

definition ilog2 :: "rat \<Rightarrow> int" where
  \<comment> \<open>\<open>\<lfloor>log\<^sub>2 x\<rfloor>\<close> of a positive rational, from the bit lengths of numerator and denominator\<close>
  "ilog2 x = (let (n, d) = quotient_of x; k = bitlen n - bitlen d
              in if 2 powi k \<le> x then k else k - 1)"

definition round_half_even :: "rat \<Rightarrow> int" where
  "round_half_even y = (let f = \<lfloor>y\<rfloor>; r = y - of_int f
     in if r < 1 / 2 then f else if 1 / 2 < r then f + 1 else if even f then f else f + 1)"

definition ulp_exp :: "rat \<Rightarrow> int" where
  \<comment> \<open>exponent of the spacing of binary64 numbers around \<open>x\<close>: 53 significant bits, subnormals below \<open>2 powi - 1022\<close>\<close>
  "ulp_exp x = max (ilog2 \<bar>x\<bar> - 52) (- 1074)"

definition fl :: "rat \<Rightarrow> rat" where
  "fl x = (if x = 0 then 0
           else of_int (round_half_even (x / 2 powi ulp_exp x)) * 2 powi ulp_exp x)"

definition is_float :: "rat \<Rightarrow> bool" where
  "is_float x \<longleftrightarrow> fl x = x"

definition float_add :: "rat \<Rightarrow> rat \<Rightarrow> rat" where
  "float_add a b = fl (a + b)"

definition float_sub :: "rat \<Rightarrow> rat \<Rightarrow> rat" where
  "float_sub a b = fl (a - b)"

definition float_mul :: "rat \<Rightarrow> rat \<Rightarrow> rat" where
  "float_mul a b = fl (a * b)"

definition float_div :: "rat \<Rightarrow> rat \<Rightarrow> rat" where
  \<comment> \<open>only called with a non-zero divisor: the source guards both of its divisions\<close>
  "float_div a b = fl (a / b)"

definition float_of_nat :: "nat \<Rightarrow> rat" where
  \<comment> \<open>the conversion of an \<^verbatim>\<open>int\<close> operand of a float operation\<close>
  "float_of_nat n = fl (of_nat n)"

section \<open>Late fusion\<close>

text \<open>
  \<^verbatim>\<open>individual_results\<close> is a dict from the modality name to that modality's result
  dict; Python iterates it in insertion order, so it is an association list. A result
  dict is a map from field names to floats: fusion reads \<^verbatim>\<open>probability_pd\<close> and
  \<^verbatim>\<open>confidence\<close> only. A result that is \<^verbatim>\<open>None\<close> or empty fails the test
  \<^verbatim>\<open>result and 'probability_pd' in result\<close> as a dict without that key does, and is
  the empty map here.
\<close>

type_synonym result = "string \<rightharpoonup> rat"

type_synonym results = "(string \<times> result) list"

definition base_weights :: "string \<rightharpoonup> rat" where
  "base_weights = [''voice'' \<mapsto> fl (20 / 100), ''datscan'' \<mapsto> fl (50 / 100),
                   ''spiral'' \<mapsto> fl (30 / 100)]"

definition base_weight_of :: "string \<Rightarrow> rat" where
  \<comment> \<open>\<^verbatim>\<open>base_weights.get(model_type, 0.1)\<close>\<close>
  "base_weight_of model_type =
     (case base_weights model_type of Some w \<Rightarrow> w | None \<Rightarrow> fl (1 / 10))"

definition confidence_of :: "result \<Rightarrow> rat" where
  \<comment> \<open>\<^verbatim>\<open>result.get('confidence', 0.5)\<close>\<close>
  "confidence_of r = (case r ''confidence'' of Some c \<Rightarrow> c | None \<Rightarrow> 1 / 2)"

definition adjusted_weight_of :: "string \<Rightarrow> result \<Rightarrow> rat" where
  "adjusted_weight_of model_type r = float_mul (base_weight_of model_type) (confidence_of r)"

record fusion_vars =
  total_weighted_probability :: rat
  total_weight :: rat
  total_confidence :: rat
  available_models :: nat

definition fusion_init :: fusion_vars where
  "fusion_init = \<lparr>total_weighted_probability = 0, total_weight = 0,
                   total_confidence = 0, available_models = 0\<rparr>"

definition fusion_step :: "fusion_vars \<Rightarrow> string \<times> result \<Rightarrow> fusion_vars" where
  \<comment> \<open>the body of the loop over \<^verbatim>\<open>individual_results.items()\<close>\<close>
  "fusion_step s item =
     (case item of (model_type, r) \<Rightarrow>
        (case r ''probability_pd'' of
           None \<Rightarrow> s
         | Some pd \<Rightarrow>
             let confidence = confidence_of r;
                 adjusted_weight = float_mul (base_weight_of model_type) confidence
             in \<lparr>total_weighted_probability =
                    float_add (total_weighted_probability s) (float_mul pd adjusted_weight),
                 total_weight = float_add (total_weight s) adjusted_weight,
                 total_confidence = float_add (total_confidence s) confidence,
                 available_models = available_models s + 1\<rparr>))"

definition fusion_loop :: "results \<Rightarrow> fusion_vars" where
  "fusion_loop individual_results = foldl fusion_step fusion_init individual_results"

record verdict =
  prediction :: int
  prediction_label :: string
  confidence :: rat
  probability_pd :: rat
  probability_healthy :: rat

definition fallback_verdict :: verdict where
  "fallback_verdict = \<lparr>prediction = 0, prediction_label = ''Insufficient Data'',
     confidence = 0, probability_pd = 1 / 2, probability_healthy = 1 / 2\<rparr>"

definition perform_late_fusion :: "results \<Rightarrow> verdict" where
  \<comment> \<open>\<^verbatim>\<open>MultimodalAnalysisService._perform_late_fusion\<close>\<close>
  "perform_late_fusion individual_results =
     (let s = fusion_loop individual_results in
      if 0 < total_weight s then
        let fusion_probability_pd = float_div (total_weighted_probability s) (total_weight s);
            fusion_probability_healthy = float_sub 1 fusion_probability_pd;
            fusion_confidence =
              (if 0 < available_models s
               then float_div (total_confidence s) (float_of_nat (available_models s))
               else 0);
            fusion_prediction = (if 1 / 2 < fusion_probability_pd then 1 else 0)
        in \<lparr>prediction = fusion_prediction,
            prediction_label =
              (if fusion_prediction = 1 then ''Parkinson's Disease'' else ''Healthy''),
            confidence = fusion_confidence,
            probability_pd = fusion_probability_pd,
            probability_healthy = fusion_probability_healthy\<rparr>
      else fallback_verdict)"

section \<open>Recommendations\<close>

definition has_key :: "string \<Rightarrow> results \<Rightarrow> bool" where
  \<comment> \<open>\<^verbatim>\<open>key in individual_results\<close>\<close>
  "has_key k individual_results \<longleftrightarrow> k \<in> set (map fst individual_results)"

definition generate_recommendations :: "verdict \<Rightarrow> results \<Rightarrow> string list" where
  \<comment> \<open>\<^verbatim>\<open>MultimodalAnalysisService._generate_recommendations\<close>; the floats \<^verbatim>\<open>0.7\<close> and
     \<^verbatim>\<open>0.8\<close> are the binary64 numbers nearest to 7/10 and 8/10\<close>
  "generate_recommendations fusion_result individual_results =
     (if prediction fusion_result = 1 then
        (if fl (7 / 10) < confidence fusion_result
         then [''Schedule comprehensive neurological evaluation'',
               ''Consider referral to movement disorder specialist'',
               ''Begin baseline motor function assessment'']
         else [''Schedule follow-up evaluation for confirmation'',
               ''Monitor for symptom progression'',
               ''Consider additional diagnostic testing''])
        @ (if has_key ''datscan'' individual_results
           then [''DATScan results support clinical diagnosis''] else [])
        @ (if has_key ''voice'' individual_results
           then [''Voice changes warrant speech therapy evaluation''] else [])
        @ (if has_key ''spiral'' individual_results
           then [''Motor assessment indicates need for physical therapy''] else [])
      else
        (if fl (8 / 10) < confidence fusion_result
         then [''Continue routine health monitoring'',
               ''No immediate follow-up required'']
         else [''Consider repeat testing in 6-12 months'',
               ''Monitor for new symptoms'']))
     @ [''Maintain regular exercise routine'',
        ''Schedule annual neurological check-up'']"

section \<open>The orchestrator and the endpoint\<close>

text \<open>
  The three analysers are external collaborators: each either returns a result dict or
  raises, and \<open>Inl msg\<close> is an exception whose \<^verbatim>\<open>str(e)\<close> is \<open>msg\<close>. They are
  parameters of the model. \<^verbatim>\<open>analysis_data.get(key)\<close> is tested for truthiness: an
  uploaded file is truthy when present, the \<^verbatim>\<open>spiral_data\<close> string when present and
  non-empty. The endpoint puts no \<^verbatim>\<open>drawing_time\<close> into \<^verbatim>\<open>analysis_data\<close>, so the
  spiral analyser is called with \<^verbatim>\<open>None\<close> for it. The response fields that depend on
  the clock (\<^verbatim>\<open>total_processing_time\<close>, \<^verbatim>\<open>timestamp\<close>) and the formatted
  \<^verbatim>\<open>clinical_summary\<close> text are left out of the response record.
\<close>

record 'f analysers =
  analyze_voice :: "'f \<Rightarrow> string + result"
  analyze_datscan :: "'f \<Rightarrow> string + result"
  analyze_spiral :: "string \<Rightarrow> rat option \<Rightarrow> string + result"

record 'f analysis_data =
  voice_file :: "'f option"
  datscan_file :: "'f option"
  spiral_data :: "string option"

record orchestrator_vars =
  individual_results :: results
  models_used :: "string list"
  errors :: "string list"

definition record_outcome ::
  "string \<Rightarrow> string \<Rightarrow> string + result \<Rightarrow> orchestrator_vars \<Rightarrow> orchestrator_vars" where
  \<comment> \<open>one \<^verbatim>\<open>try\<close>/\<^verbatim>\<open>except Exception\<close> block of \<^verbatim>\<open>analyze_multimodal\<close>\<close>
  "record_outcome key title outcome s =
     (case outcome of
        Inr r \<Rightarrow> s\<lparr>individual_results := individual_results s @ [(key, r)],
                   models_used := models_used s @ [key]\<rparr>
      | Inl msg \<Rightarrow> s\<lparr>errors := errors s @ [title @ '' analysis failed: '' @ msg]\<rparr>)"

definition run_voice :: "'f analysers \<Rightarrow> 'f analysis_data \<Rightarrow> orchestrator_vars \<Rightarrow> orchestrator_vars" where
  "run_voice a d s =
     (case voice_file d of
        Some f \<Rightarrow> record_outcome ''voice'' ''Voice'' (analyze_voice a f) s
      | None \<Rightarrow> s)"

definition run_datscan :: "'f analysers \<Rightarrow> 'f analysis_data \<Rightarrow> orchestrator_vars \<Rightarrow> orchestrator_vars" where
  "run_datscan a d s =
     (case datscan_file d of
        Some f \<Rightarrow> record_outcome ''datscan'' ''DATScan'' (analyze_datscan a f) s
      | None \<Rightarrow> s)"

definition run_spiral :: "'f analysers \<Rightarrow> 'f analysis_data \<Rightarrow> orchestrator_vars \<Rightarrow> orchestrator_vars" where
  "run_spiral a d s =
     (case spiral_data d of
        Some x \<Rightarrow> (if x = [] then s
                   else record_outcome ''spiral'' ''Spiral'' (analyze_spiral a x None) s)
      | None \<Rightarrow> s)"

record response =
  fusion_prediction :: int
  fusion_prediction_label :: string
  fusion_confidence :: rat
  fusion_probability_pd :: rat
  fusion_probability_healthy :: rat
  response_individual_results :: results
  response_models_used :: "string list"
  response_recommendations :: "string list"
  response_errors :: "string list option"

definition analyze_multimodal :: "'f analysers \<Rightarrow> 'f analysis_data \<Rightarrow> response" where
  \<comment> \<open>\<^verbatim>\<open>MultimodalAnalysisService.analyze_multimodal\<close>: nothing outside the three
     \<^verbatim>\<open>try\<close> blocks raises, so the outer \<^verbatim>\<open>except: raise\<close> has no branch here\<close>
  "analyze_multimodal a d =
     (let s = run_spiral a d (run_datscan a d (run_voice a d
                \<lparr>individual_results = [], models_used = [], errors = []\<rparr>));
          fusion_result = perform_late_fusion (individual_results s)
      in \<lparr>fusion_prediction = prediction fusion_result,
          fusion_prediction_label = prediction_label fusion_result,
          fusion_confidence = confidence fusion_result,
          fusion_probability_pd = probability_pd fusion_result,
          fusion_probability_healthy = probability_healthy fusion_result,
          response_individual_results = individual_results s,
          response_models_used = models_used s,
          response_recommendations =
            generate_recommendations fusion_result (individual_results s),
          response_errors = (if errors s = [] then None else Some (errors s))\<rparr>)"

datatype http_error = HTTPException nat string

definition multimodal_analysis :: "'f analysers \<Rightarrow> 'f analysis_data \<Rightarrow> http_error + response" where
  \<comment> \<open>the endpoint \<^verbatim>\<open>POST /multimodal-analysis\<close> of \<^verbatim>\<open>backend/main.py\<close>: it builds
     \<^verbatim>\<open>analysis_data\<close> from the optional form fields and calls the orchestrator, with no
     check of its own; its \<^verbatim>\<open>except Exception\<close> turns an exception of the
     orchestrator into status 500, and the orchestrator has none\<close>
  "multimodal_analysis a d = Inr (analyze_multimodal a d)"

section \<open>Notions used to state the properties\<close>

text \<open>
  The ModalityResult invariant of the specification (the probabilities sum to 1 and the
  confidence lies in \<open>[0, 1]\<close>); the source has no check of it.
\<close>

definition well_formed_result :: "result \<Rightarrow> bool" where
  "well_formed_result r \<longleftrightarrow>
     (case (r ''probability_pd'', r ''probability_healthy'', r ''confidence'') of
        (Some p, Some h, Some c) \<Rightarrow> p + h = 1 \<and> 0 \<le> c \<and> c \<le> 1
      | _ \<Rightarrow> False)"

definition malformed_result :: result where
  "malformed_result = [''probability_pd'' \<mapsto> 3 / 4, ''probability_healthy'' \<mapsto> 3 / 4,
                       ''confidence'' \<mapsto> 2]"

text \<open>
  The segments of the recommendation list. \<open>modality_items order\<close> has one fixed sentence
  for every modality of \<open>order\<close> that is a key of \<^verbatim>\<open>individual_results\<close>, in that
  order; \<open>spec_recommendations\<close> is the list as the specification describes it, with the
  modalities enumerated as voice, datscan, spiral for every verdict.
\<close>

definition tier_items :: "verdict \<Rightarrow> string list" where
  "tier_items v =
     (if prediction v = 1 then
        (if fl (7 / 10) < confidence v
         then [''Schedule comprehensive neurological evaluation'',
               ''Consider referral to movement disorder specialist'',
               ''Begin baseline motor function assessment'']
         else [''Schedule follow-up evaluation for confirmation'',
               ''Monitor for symptom progression'',
               ''Consider additional diagnostic testing''])
      else
        (if fl (8 / 10) < confidence v
         then [''Continue routine health monitoring'',
               ''No immediate follow-up required'']
         else [''Consider repeat testing in 6-12 months'',
               ''Monitor for new symptoms'']))"

definition modality_item :: "string \<Rightarrow> string" where
  "modality_item m =
     (if m = ''datscan'' then ''DATScan results support clinical diagnosis''
      else if m = ''voice'' then ''Voice changes warrant speech therapy evaluation''
      else ''Motor assessment indicates need for physical therapy'')"

definition modality_items :: "string list \<Rightarrow> results \<Rightarrow> string list" where
  "modality_items order rs =
     concat (map (\<lambda>m. if has_key m rs then [modality_item m] else []) order)"

definition general_items :: "string list" where
  "general_items = [''Maintain regular exercise routine'',
                    ''Schedule annual neurological check-up'']"

definition spec_recommendations :: "verdict \<Rightarrow> results \<Rightarrow> string list" where
  "spec_recommendations v rs =
     tier_items v @ modality_items [''voice'', ''datscan'', ''spiral''] rs
     @ general_items"

definition pd_verdict :: verdict where
  "pd_verdict = \<lparr>prediction = 1, prediction_label = ''Parkinson's Disease'',
     confidence = 3 / 4, probability_pd = 3 / 4, probability_healthy = 1 / 4\<rparr>"

definition healthy_verdict :: verdict where
  "healthy_verdict = \<lparr>prediction = 0, prediction_label = ''Healthy'',
     confidence = 3 / 4, probability_pd = 1 / 4, probability_healthy = 3 / 4\<rparr>"

text \<open>
  What the orchestrator has to do, stated without its variables: the outcomes of the
  analysers of the modalities that have an input, in the order voice, datscan, spiral;
  the successful ones, and the messages of the failed ones.
\<close>

definition requested_outcomes ::
  "'f analysers \<Rightarrow> 'f analysis_data \<Rightarrow> (string \<times> string \<times> (string + result)) list" where
  "requested_outcomes a d =
     (case voice_file d of Some f \<Rightarrow> [(''voice'', ''Voice'', analyze_voice a f)] | None \<Rightarrow> [])
     @ (case datscan_file d of Some f \<Rightarrow> [(''datscan'', ''DATScan'', analyze_datscan a f)]
        | None \<Rightarrow> [])
     @ (case spiral_data d of
          Some x \<Rightarrow> if x = [] then [] else [(''spiral'', ''Spiral'', analyze_spiral a x None)]
        | None \<Rightarrow> [])"

fun successes :: "(string \<times> string \<times> (string + result)) list \<Rightarrow> results" where
  "successes [] = []"
| "successes ((key, title, Inr r) # outs) = (key, r) # successes outs"
| "successes ((key, title, Inl msg) # outs) = successes outs"

fun failures :: "(string \<times> string \<times> (string + result)) list \<Rightarrow> string list" where
  "failures [] = []"
| "failures ((key, title, Inr r) # outs) = failures outs"
| "failures ((key, title, Inl msg) # outs) =
     (title @ '' analysis failed: '' @ msg) # failures outs"

definition record_all ::
  "(string \<times> string \<times> (string + result)) list \<Rightarrow> orchestrator_vars \<Rightarrow> orchestrator_vars" where
  "record_all outs s = foldl (\<lambda>s (key, title, out). record_outcome key title out s) s outs"

definition example_analysers :: "unit analysers" where
  "example_analysers =
     \<lparr>analyze_voice = (\<lambda>_. Inl ''Voice analyzer not initialized''),
      analyze_datscan = (\<lambda>_. Inr [''probability_pd'' \<mapsto> 3 / 4, ''probability_healthy'' \<mapsto> 1 / 4,
                                   ''confidence'' \<mapsto> 1]),
      analyze_spiral = (\<lambda>_ _. Inl ''Spiral model not loaded'')\<rparr>"

text \<open>
  A valid modality result for fusion: the probability and the confidence it carries lie
  in \<open>[0, 1]\<close>. \<open>vars_in_range\<close> is the invariant of the fusion loop on valid results; a float sum
  of numbers below 1 never gets past \<open>2 ^ 53\<close>.
\<close>

definition valid_result :: "result \<Rightarrow> bool" where
  "valid_result r \<longleftrightarrow>
     (case r ''probability_pd'' of Some p \<Rightarrow> 0 \<le> p \<and> p \<le> 1 | None \<Rightarrow> True) \<and>
     (case r ''confidence'' of Some c \<Rightarrow> 0 \<le> c \<and> c \<le> 1 | None \<Rightarrow> True)"

definition valid_results :: "results \<Rightarrow> bool" where
  "valid_results rs \<longleftrightarrow> list_all (\<lambda>(k, r). valid_result r) rs"

definition vars_in_range :: "fusion_vars \<Rightarrow> bool" where
  "vars_in_range s \<longleftrightarrow>
     0 \<le> total_weighted_probability s \<and> total_weighted_probability s \<le> total_weight s \<and>
     0 \<le> total_confidence s \<and> total_confidence s \<le> of_nat (available_models s) \<and>
     total_confidence s \<le> 2 ^ 53"

text \<open>
  The weighted average without rounding. \<open>contributions\<close> lists, for every result
  that fusion uses, its probability, its base weight and its confidence;
  \<open>exact_probability_pd\<close> is the quotient of the exact sums, \<open>exact_confidence\<close> the
  exact mean of the confidences. \<open>float_sum\<close> is the left-to-right float summation of
  the loop.
\<close>

definition contributions :: "results \<Rightarrow> (rat \<times> rat \<times> rat) list" where
  "contributions rs =
     map (\<lambda>(k, r). (the (r ''probability_pd''), base_weight_of k, confidence_of r))
       (filter (\<lambda>(k, r). r ''probability_pd'' \<noteq> None) rs)"

definition exact_weighted_sum :: "results \<Rightarrow> rat" where
  "exact_weighted_sum rs = sum_list (map (\<lambda>(p, b, c). p * (b * c)) (contributions rs))"

definition exact_weight_sum :: "results \<Rightarrow> rat" where
  "exact_weight_sum rs = sum_list (map (\<lambda>(p, b, c). b * c) (contributions rs))"

definition exact_probability_pd :: "results \<Rightarrow> rat" where
  "exact_probability_pd rs = exact_weighted_sum rs / exact_weight_sum rs"

definition exact_confidence :: "results \<Rightarrow> rat" where
  "exact_confidence rs =
     sum_list (map (\<lambda>(p, b, c). c) (contributions rs)) / of_nat (length (contributions rs))"

definition float_sum :: "rat \<Rightarrow> rat list \<Rightarrow> rat" where
  "float_sum acc xs = foldl float_add acc xs"

definition valid_contribution :: "rat \<times> rat \<times> rat \<Rightarrow> bool" where
  "valid_contribution x \<longleftrightarrow>
     (case x of (p, b, c) \<Rightarrow> 0 \<le> p \<and> p \<le> 1 \<and> 0 \<le> b \<and> b \<le> 1 \<and> 0 \<le> c \<and> c \<le> 1)"

text \<open>
  Inputs of the examples: three well-formed results whose exact weighted average is the
  threshold 0.5, in two orders, and two results of which the first has the confidence
  \<open>c\<close>.
\<close>

definition well_formed_results :: "results \<Rightarrow> bool" where
  "well_formed_results rs \<longleftrightarrow> list_all (\<lambda>(k, r). well_formed_result r) rs"

definition order_example :: results where
  "order_example =
     [(''voice'', [''probability_pd'' \<mapsto> 0, ''probability_healthy'' \<mapsto> 1, ''confidence'' \<mapsto> 1 / 2]),
      (''datscan'', [''probability_pd'' \<mapsto> 3 / 4, ''probability_healthy'' \<mapsto> 1 / 4, ''confidence'' \<mapsto> 1]),
      (''spiral'', [''probability_pd'' \<mapsto> 1 / 4, ''probability_healthy'' \<mapsto> 3 / 4, ''confidence'' \<mapsto> 1])]"

definition order_example_rotated :: results where
  "order_example_rotated =
     [(''spiral'', [''probability_pd'' \<mapsto> 1 / 4, ''probability_healthy'' \<mapsto> 3 / 4, ''confidence'' \<mapsto> 1]),
      (''voice'', [''probability_pd'' \<mapsto> 0, ''probability_healthy'' \<mapsto> 1, ''confidence'' \<mapsto> 1 / 2]),
      (''datscan'', [''probability_pd'' \<mapsto> 3 / 4, ''probability_healthy'' \<mapsto> 1 / 4, ''confidence'' \<mapsto> 1])]"

definition monotonicity_example :: "rat \<Rightarrow> results" where
  "monotonicity_example c =
     [(''voice'', [''probability_pd'' \<mapsto> 3 / 4, ''probability_healthy'' \<mapsto> 1 / 4, ''confidence'' \<mapsto> c]),
      (''datscan'', [''probability_pd'' \<mapsto> 1 / 4, ''probability_healthy'' \<mapsto> 3 / 4, ''confidence'' \<mapsto> 1])]"

section \<open>Basic facts\<close>

lemma fl_0: "fl 0 = 0"
  by (simp add: fl_def)

lemma float_add_0_0: "float_add 0 0 = 0"
  by (simp add: float_add_def fl_0)

lemma fusion_step_no_pd: "r ''probability_pd'' = None \<Longrightarrow> fusion_step s (k, r) = s"
  by (simp add: fusion_step_def)

lemma fusion_step_pd:
  "r ''probability_pd'' = Some p \<Longrightarrow> fusion_step s (k, r) =
     \<lparr>total_weighted_probability =
        float_add (total_weighted_probability s) (float_mul p (adjusted_weight_of k r)),
      total_weight = float_add (total_weight s) (adjusted_weight_of k r),
      total_confidence = float_add (total_confidence s) (confidence_of r),
      available_models = available_models s + 1\<rparr>"
  by (simp add: fusion_step_def adjusted_weight_of_def Let_def)

lemma total_weight_step:
  "total_weight (fusion_step s (k, r)) =
     (if r ''probability_pd'' = None then total_weight s
      else float_add (total_weight s) (adjusted_weight_of k r))"
  by (auto simp: fusion_step_no_pd fusion_step_pd)

lemma foldl_zero_weight:
  "\<forall>(k, r) \<in> set rs. r ''probability_pd'' \<noteq> None \<longrightarrow> adjusted_weight_of k r = 0 \<Longrightarrow>
   total_weight s = 0 \<Longrightarrow> total_weight (foldl fusion_step s rs) = 0"
proof (induction rs arbitrary: s)
  case Nil
  then show ?case by simp
next
  case (Cons x rs)
  obtain k r where x: "x = (k, r)" by (cases x)
  have "total_weight (fusion_step s x) = 0"
    using Cons.prems unfolding x by (auto simp: total_weight_step float_add_0_0)
  moreover have "\<forall>(k, r) \<in> set rs. r ''probability_pd'' \<noteq> None \<longrightarrow> adjusted_weight_of k r = 0"
    using Cons.prems(1) by simp
  ultimately show ?case using Cons.IH by simp
qed

lemma float_mul_0_right: "float_mul a 0 = 0"
  by (simp add: float_mul_def fl_0)

lemma tie_total_weight:
  "total_weight (fusion_loop
     [(''datscan'', [''probability_pd'' \<mapsto> 0, ''probability_healthy'' \<mapsto> 1, ''confidence'' \<mapsto> fl (3 / 5)]),
      (''spiral'', [''probability_pd'' \<mapsto> 1, ''probability_healthy'' \<mapsto> 0, ''confidence'' \<mapsto> 1])])
   = 5404319552844595 / 2 ^ 53"
  by code_simp

lemma tie_pd:
  "probability_pd (perform_late_fusion
     [(''datscan'', [''probability_pd'' \<mapsto> 0, ''probability_healthy'' \<mapsto> 1, ''confidence'' \<mapsto> fl (3 / 5)]),
      (''spiral'', [''probability_pd'' \<mapsto> 1, ''probability_healthy'' \<mapsto> 0, ''confidence'' \<mapsto> 1])])
   = 1 / 2"
  by code_simp

lemma fusion_step_default_confidence:
  "r ''confidence'' = None \<Longrightarrow>
   fusion_step s (k, r) = fusion_step s (k, r(''confidence'' \<mapsto> 1 / 2))"
  by (simp add: fusion_step_def confidence_of_def split: option.splits)

lemma fusion_step_healthy_unread:
  "fusion_step s (k, r(''probability_healthy'' := x)) = fusion_step s (k, r)"
  by (simp add: fusion_step_def confidence_of_def split: option.splits)

lemma foldl_healthy_unread:
  "foldl fusion_step s (map (\<lambda>(k, r). (k, r(''probability_healthy'' := h k r))) rs) =
   foldl fusion_step s rs"
  by (induction rs arbitrary: s) (auto simp: fusion_step_healthy_unread)

lemma fl_7_10: "fl (7 / 10) = 3152519739159347 / 2 ^ 52"
  by code_simp
lemma fl_8_10: "fl (4 / 5) = 3602879701896397 / 2 ^ 52"
  by code_simp

lemma record_all_Nil: "record_all [] s = s"
  by (simp add: record_all_def)

lemma record_all_Cons:
  "record_all ((key, title, out) # outs) s = record_all outs (record_outcome key title out s)"
  by (simp add: record_all_def)

lemma record_all_fields:
  "individual_results (record_all outs s) = individual_results s @ successes outs \<and>
   models_used (record_all outs s) = models_used s @ map fst (successes outs) \<and>
   errors (record_all outs s) = errors s @ failures outs"
proof (induction outs arbitrary: s)
  case Nil
  then show ?case by (simp add: record_all_Nil)
next
  case (Cons x outs)
  obtain key title out where x: "x = (key, title, out)" by (cases x)
  show ?case
    unfolding x by (cases out) (simp_all add: record_all_Cons Cons.IH record_outcome_def)
qed

lemma runs_are_record_all:
  "run_spiral a d (run_datscan a d (run_voice a d s)) = record_all (requested_outcomes a d) s"
  by (simp add: run_spiral_def run_datscan_def run_voice_def record_all_def
        requested_outcomes_def split: option.splits)

section \<open>Properties of rounding\<close>

lemma ilog2_bounds:
  assumes "0 < x"
  shows "2 powi ilog2 x \<le> x \<and> x < 2 powi (ilog2 x + 1)"
proof -
  obtain n d where q: "quotient_of x = (n, d)"
    by (cases "quotient_of x")
  have d: "0 < d"
    using quotient_of_denom_pos [OF q] .
  have x: "x = of_int n / of_int d"
    using quotient_of_div [OF q] .
  have n: "0 < n"
    using assms d unfolding x by (simp add: zero_less_divide_iff)
  define bn where "bn = bitlen n"
  define bd where "bd = bitlen d"
  have bn: "2 ^ nat (bn - 1) \<le> n" "n < 2 ^ nat bn"
    using bitlen_bounds [OF n] by (simp_all add: bn_def)
  have bd: "2 ^ nat (bd - 1) \<le> d" "d < 2 ^ nat bd"
    using bitlen_bounds [OF d] by (simp_all add: bd_def)
  have bn1: "1 \<le> bn" and bd1: "1 \<le> bd"
    using n d bitlen_eq_zero_iff [of n] bitlen_eq_zero_iff [of d] bitlen_nonneg [of n] bitlen_nonneg [of d]
    by (auto simp: bn_def bd_def)
  have rn: "(2::rat) powi (bn - 1) \<le> of_int n" "of_int n < (2::rat) powi bn"
  proof -
    have "(of_int (2 ^ nat (bn - 1)) :: rat) \<le> of_int n"
      using bn(1) by (simp only: of_int_le_iff)
    then show "(2::rat) powi (bn - 1) \<le> of_int n"
      using bn1 by (simp add: power_int_def)
    have "(of_int n :: rat) < of_int (2 ^ nat bn)"
      using bn(2) by (simp only: of_int_less_iff)
    then show "of_int n < (2::rat) powi bn"
      using bn1 by (simp add: power_int_def)
  qed
  have rd: "(2::rat) powi (bd - 1) \<le> of_int d" "of_int d < (2::rat) powi bd"
  proof -
    have "(of_int (2 ^ nat (bd - 1)) :: rat) \<le> of_int d"
      using bd(1) by (simp only: of_int_le_iff)
    then show "(2::rat) powi (bd - 1) \<le> of_int d"
      using bd1 by (simp add: power_int_def)
    have "(of_int d :: rat) < of_int (2 ^ nat bd)"
      using bd(2) by (simp only: of_int_less_iff)
    then show "of_int d < (2::rat) powi bd"
      using bd1 by (simp add: power_int_def)
  qed
  have dpos: "(0::rat) < of_int d"
    using d by simp
  have lo: "(2::rat) powi (bn - bd - 1) \<le> x"
  proof -
    have "(2::rat) powi (bn - bd - 1) = 2 powi ((bn - 1) - bd)"
      by (simp add: algebra_simps)
    also have "\<dots> = 2 powi (bn - 1) / 2 powi bd"
      by (rule power_int_diff) simp
    also have "\<dots> \<le> of_int n / of_int d"
      by (rule frac_le) (use rn rd dpos n in \<open>auto intro: less_imp_le\<close>)
    finally show ?thesis
      unfolding x .
  qed
  have hi: "x < (2::rat) powi (bn - bd + 1)"
  proof -
    have "of_int n / of_int d < (2::rat) powi bn / of_int d"
      using rn(2) dpos by (simp add: divide_strict_right_mono)
    also have "\<dots> \<le> 2 powi bn / 2 powi (bd - 1)"
      by (rule divide_left_mono) (use rd dpos in \<open>auto intro!: mult_pos_pos\<close>)
    also have "\<dots> = 2 powi (bn - (bd - 1))"
      by (rule power_int_diff [symmetric]) simp
    also have "\<dots> = 2 powi (bn - bd + 1)"
      by (simp add: algebra_simps)
    finally show ?thesis
      unfolding x .
  qed
  have il: "ilog2 x = (if 2 powi (bn - bd) \<le> x then bn - bd else bn - bd - 1)"
    by (simp add: ilog2_def q bn_def bd_def Let_def)
  show ?thesis
  proof (cases "2 powi (bn - bd) \<le> x")
    case True
    then show ?thesis using hi by (simp add: il)
  next
    case False
    then show ?thesis using lo by (simp add: il)
  qed
qed

lemma powi2_mono: "a \<le> b \<Longrightarrow> (2::rat) powi a \<le> 2 powi b"
  by (rule power_int_increasing) simp_all

lemma powi2_pos: "(0::rat) < 2 powi a"
  by simp

lemma powi2_less_cancel: "(2::rat) powi a < 2 powi b \<Longrightarrow> a < b"
  by (rule ccontr) (use powi2_mono [of b a] in simp)

lemma ilog2_unique:
  assumes "2 powi k \<le> x" "x < 2 powi (k + 1)"
  shows "ilog2 x = k"
proof -
  have x: "0 < x"
    using assms(1) powi2_pos [of k] by (rule less_le_trans [rotated])
  note b = ilog2_bounds [OF x]
  have "(2::rat) powi k < 2 powi (ilog2 x + 1)"
    using assms(1) b by simp
  then have 1: "k < ilog2 x + 1"
    by (rule powi2_less_cancel)
  have "(2::rat) powi ilog2 x < 2 powi (k + 1)"
    using assms(2) b by simp
  then have 2: "ilog2 x < k + 1"
    by (rule powi2_less_cancel)
  from 1 2 show ?thesis by simp
qed

lemma ilog2_mono:
  assumes "0 < x" "x \<le> y"
  shows "ilog2 x \<le> ilog2 y"
proof -
  have y: "0 < y" using assms by simp
  have "(2::rat) powi ilog2 x < 2 powi (ilog2 y + 1)"
    using ilog2_bounds [OF assms(1)] ilog2_bounds [OF y] assms(2) by simp
  then have "ilog2 x < ilog2 y + 1"
    by (rule powi2_less_cancel)
  then show ?thesis by simp
qed

lemma rhe_floor_cases: "round_half_even y = \<lfloor>y\<rfloor> \<or> round_half_even y = \<lfloor>y\<rfloor> + 1"
  by (simp add: round_half_even_def Let_def)

lemma rhe_error: "\<bar>of_int (round_half_even y) - y\<bar> \<le> 1 / 2"
proof -
  have "of_int \<lfloor>y\<rfloor> \<le> y" "y < of_int \<lfloor>y\<rfloor> + 1"
    by linarith+
  then show ?thesis
    by (auto simp: round_half_even_def Let_def abs_le_iff)
qed

lemma rhe_of_int: "round_half_even (of_int m) = m"
  by (simp add: round_half_even_def Let_def)

lemma rhe_mono:
  assumes "y \<le> z"
  shows "round_half_even y \<le> round_half_even z"
proof (cases "\<lfloor>y\<rfloor> = \<lfloor>z\<rfloor>")
  case True
  then show ?thesis
    using assms by (auto simp: round_half_even_def Let_def)
next
  case False
  then have "\<lfloor>y\<rfloor> + 1 \<le> \<lfloor>z\<rfloor>"
    using floor_mono [OF assms] by simp
  moreover have "round_half_even y \<le> \<lfloor>y\<rfloor> + 1"
    using rhe_floor_cases [of y] by auto
  moreover have "\<lfloor>z\<rfloor> \<le> round_half_even z"
    using rhe_floor_cases [of z] by auto
  ultimately show ?thesis by linarith
qed

lemma rhe_ge: "of_int m \<le> y \<Longrightarrow> m \<le> round_half_even y"
  using rhe_mono [of "of_int m" y] by (simp add: rhe_of_int)

lemma rhe_le: "y \<le> of_int m \<Longrightarrow> round_half_even y \<le> m"
  using rhe_mono [of y "of_int m"] by (simp add: rhe_of_int)

lemma ulp_exp_ge: "- 1074 \<le> ulp_exp x"
  by (simp add: ulp_exp_def)

lemma ulp_exp_mono: "0 < x \<Longrightarrow> x \<le> y \<Longrightarrow> ulp_exp x \<le> ulp_exp y"
  using ilog2_mono [of x y] by (simp add: ulp_exp_def)

lemma below_next_binade: "0 < x \<Longrightarrow> x < 2 powi (ulp_exp x + 53)"
proof -
  assume x: "0 < x"
  have "ilog2 x + 1 \<le> ulp_exp x + 53"
    using x by (simp add: ulp_exp_def)
  then have "(2::rat) powi (ilog2 x + 1) \<le> 2 powi (ulp_exp x + 53)"
    by (rule powi2_mono)
  with ilog2_bounds [OF x] show ?thesis by simp
qed

lemma normal_lower: "0 < x \<Longrightarrow> - 1074 < ulp_exp x \<Longrightarrow> 2 powi (ulp_exp x + 52) \<le> x"
proof -
  assume x: "0 < x" and e: "- 1074 < ulp_exp x"
  have "ulp_exp x = ilog2 x - 52"
    using e x by (simp add: ulp_exp_def max_def split: if_splits)
  then have "ulp_exp x + 52 = ilog2 x" by simp
  with ilog2_bounds [OF x] show ?thesis by simp
qed

lemma powi2_add: "(2::rat) powi (a + b) = 2 powi a * 2 powi b"
  by (rule power_int_add) simp

lemma powi2_diff: "(2::rat) powi (a - b) = 2 powi a / 2 powi b"
  by (rule power_int_diff) simp

lemma fl_pos_def: "0 < x \<Longrightarrow>
  fl x = of_int (round_half_even (x / 2 powi ulp_exp x)) * 2 powi ulp_exp x"
  by (simp add: fl_def)

lemma fl_error_ulp:
  "\<bar>fl x - x\<bar> \<le> 2 powi ulp_exp x / 2"
proof (cases "x = 0")
  case True
  then show ?thesis by (simp add: fl_def)
next
  case False
  define e where "e = ulp_exp x"
  have p: "(0::rat) < 2 powi e" by simp
  have "fl x - x = (of_int (round_half_even (x / 2 powi e)) - x / 2 powi e) * 2 powi e"
    using False p by (simp add: fl_def e_def algebra_simps)
  then have "\<bar>fl x - x\<bar> = \<bar>of_int (round_half_even (x / 2 powi e)) - x / 2 powi e\<bar> * 2 powi e"
    using p by (simp add: abs_mult)
  also have "\<dots> \<le> (1 / 2) * 2 powi e"
    by (rule mult_right_mono [OF rhe_error]) simp
  finally show ?thesis by (simp add: e_def)
qed

lemma fl_nonneg: "0 \<le> x \<Longrightarrow> 0 \<le> fl x"
proof (cases "x = 0")
  case True
  then show ?thesis by (simp add: fl_def)
next
  case False
  assume "0 \<le> x"
  then have "(of_int 0 :: rat) \<le> x / 2 powi ulp_exp x"
    by simp
  then have "0 \<le> round_half_even (x / 2 powi ulp_exp x)"
    by (rule rhe_ge)
  then show ?thesis
    using False by (simp add: fl_def)
qed

lemma fl_upper_binade: "0 < x \<Longrightarrow> fl x \<le> 2 powi (ulp_exp x + 53)"
proof -
  assume x: "0 < x"
  define e where "e = ulp_exp x"
  have "x / 2 powi e < 2 powi (e + 53) / 2 powi e"
    using below_next_binade [OF x] by (simp add: e_def divide_strict_right_mono)
  also have "\<dots> = 2 powi 53"
    by (simp add: powi2_add)
  finally have "x / 2 powi e \<le> of_int (2 ^ 53)"
    by simp
  then have "round_half_even (x / 2 powi e) \<le> 2 ^ 53"
    by (rule rhe_le)
  then have "(of_int (round_half_even (x / 2 powi e)) :: rat) \<le> of_int (2 ^ 53)"
    by (simp only: of_int_le_iff)
  then have "(of_int (round_half_even (x / 2 powi e)) :: rat) \<le> 2 powi 53"
    by simp
  then have "(of_int (round_half_even (x / 2 powi e)) :: rat) * 2 powi e \<le> (2 powi 53) * 2 powi e"
    by (intro mult_right_mono) simp_all
  then show ?thesis
    using x by (simp add: fl_def e_def powi2_add mult.commute)
qed

lemma fl_lower_binade:
  assumes x: "0 < x" and e: "- 1074 < ulp_exp x"
  shows "2 powi (ulp_exp x + 52) \<le> fl x"
proof -
  define e where "e = ulp_exp x"
  have "2 powi (e + 52) / 2 powi e \<le> x / 2 powi e"
    using normal_lower [OF assms] by (simp add: e_def divide_right_mono)
  moreover have "(2::rat) powi (e + 52) / 2 powi e = 2 powi 52"
    by (simp add: powi2_add)
  ultimately have "of_int (2 ^ 52) \<le> x / 2 powi e"
    by simp
  then have "2 ^ 52 \<le> round_half_even (x / 2 powi e)"
    by (rule rhe_ge)
  then have "(of_int (2 ^ 52) :: rat) \<le> of_int (round_half_even (x / 2 powi e))"
    by (simp only: of_int_le_iff)
  then have "(2::rat) powi 52 \<le> of_int (round_half_even (x / 2 powi e))"
    by simp
  then have "((2::rat) powi 52) * 2 powi e \<le> of_int (round_half_even (x / 2 powi e)) * 2 powi e"
    by (intro mult_right_mono) simp_all
  then show ?thesis
    using x by (simp add: fl_def e_def powi2_add mult.commute)
qed

lemma fl_mono_pos:
  assumes x: "0 < x" and xy: "x \<le> y"
  shows "fl x \<le> fl y"
proof -
  have y: "0 < y" using x xy by simp
  have le: "ulp_exp x \<le> ulp_exp y"
    using ulp_exp_mono [OF x xy] .
  show ?thesis
  proof (cases "ulp_exp x = ulp_exp y")
    case True
    have "x / 2 powi ulp_exp y \<le> y / 2 powi ulp_exp y"
      using xy by (simp add: divide_right_mono)
    then have "round_half_even (x / 2 powi ulp_exp y) \<le> round_half_even (y / 2 powi ulp_exp y)"
      by (rule rhe_mono)
    then have "(of_int (round_half_even (x / 2 powi ulp_exp y)) :: rat)
        \<le> of_int (round_half_even (y / 2 powi ulp_exp y))"
      by (simp only: of_int_le_iff)
    then have "(of_int (round_half_even (x / 2 powi ulp_exp y)) :: rat) * 2 powi ulp_exp y
        \<le> of_int (round_half_even (y / 2 powi ulp_exp y)) * 2 powi ulp_exp y"
      by (intro mult_right_mono) simp_all
    then show ?thesis
      using x y True by (simp add: fl_def)
  next
    case False
    with le have lt: "ulp_exp x + 1 \<le> ulp_exp y" by simp
    have n: "- 1074 < ulp_exp y"
      using lt ulp_exp_ge [of x] by simp
    have "fl x \<le> 2 powi (ulp_exp x + 53)"
      by (rule fl_upper_binade [OF x])
    also have "\<dots> \<le> 2 powi (ulp_exp y + 52)"
      by (rule powi2_mono) (use lt in simp)
    also have "\<dots> \<le> fl y"
      by (rule fl_lower_binade [OF y n])
    finally show ?thesis .
  qed
qed

lemma fl_mono:
  assumes "0 \<le> x" "x \<le> y"
  shows "fl x \<le> fl y"
proof (cases "x = 0")
  case True
  then show ?thesis
    using assms fl_nonneg [of y] by (simp add: fl_def)
next
  case False
  then show ?thesis
    using assms by (intro fl_mono_pos) simp_all
qed

lemma sig_bounds:
  assumes x: "0 < x"
  shows "0 \<le> round_half_even (x / 2 powi ulp_exp x) \<and>
         round_half_even (x / 2 powi ulp_exp x) \<le> 2 ^ 53"
proof -
  define e where "e = ulp_exp x"
  have "(of_int 0 :: rat) \<le> x / 2 powi e"
    using x by simp
  then have lo: "0 \<le> round_half_even (x / 2 powi e)"
    by (rule rhe_ge)
  have "x / 2 powi e < 2 powi (e + 53) / 2 powi e"
    using below_next_binade [OF x] by (simp add: e_def divide_strict_right_mono)
  also have "\<dots> = 2 powi 53"
    by (simp add: powi2_add)
  finally have "x / 2 powi e \<le> of_int (2 ^ 53)"
    by simp
  then have "round_half_even (x / 2 powi e) \<le> 2 ^ 53"
    by (rule rhe_le)
  with lo show ?thesis by (simp add: e_def)
qed

lemma fl_fix:
  assumes m: "0 < m" "m < 2 ^ 53" and e: "- 1074 \<le> e"
  shows "fl (of_int m * 2 powi e) = of_int m * 2 powi e"
proof -
  define z :: rat where "z = of_int m * 2 powi e"
  have z: "0 < z"
    using m by (simp add: z_def)
  have "(of_int m :: rat) < of_int (2 ^ 53)"
    using m(2) by (simp only: of_int_less_iff)
  then have "(of_int m :: rat) < 2 powi 53"
    by simp
  then have "z < 2 powi 53 * 2 powi e"
    unfolding z_def by (intro mult_strict_right_mono) simp_all
  then have "z < 2 powi (e + 53)"
    by (simp add: powi2_add mult.commute)
  then have "(2::rat) powi ilog2 z < 2 powi (e + 53)"
    using ilog2_bounds [OF z] by simp
  then have "ilog2 z < e + 53"
    by (rule powi2_less_cancel)
  then have le: "ulp_exp z \<le> e"
    using e z by (simp add: ulp_exp_def)
  define u where "u = ulp_exp z"
  define d where "d = nat (e - u)"
  have ed: "e = u + int d"
    using le by (simp add: d_def u_def)
  have "(2::rat) powi e = 2 powi u * 2 powi int d"
    by (subst ed) (rule powi2_add)
  then have pe: "(2::rat) powi e = 2 powi u * 2 ^ d"
    by simp
  have zu: "z = of_int (m * 2 ^ d) * 2 powi u"
    by (simp add: z_def pe)
  then have "z / 2 powi u = of_int (m * 2 ^ d)"
    by simp
  then have "round_half_even (z / 2 powi u) = m * 2 ^ d"
    by (simp only: rhe_of_int)
  then have "fl z = of_int (m * 2 ^ d) * 2 powi u"
    using z by (simp add: fl_def u_def)
  also have "\<dots> = z"
    by (rule zu [symmetric])
  finally show ?thesis
    by (simp only: z_def)
qed

lemma fl_idem:
  assumes "0 \<le> x"
  shows "fl (fl x) = fl x"
proof (cases "x = 0")
  case True
  then show ?thesis by (simp add: fl_def)
next
  case False
  with assms have x: "0 < x" by simp
  define m where "m = round_half_even (x / 2 powi ulp_exp x)"
  have fx: "fl x = of_int m * 2 powi ulp_exp x"
    using x by (simp add: fl_def m_def)
  have mb: "0 \<le> m" "m \<le> 2 ^ 53"
    using sig_bounds [OF x] by (simp_all add: m_def)
  consider "m = 0" | "0 < m" "m < 2 ^ 53" | "m = 2 ^ 53"
    using mb by linarith
  then show ?thesis
  proof cases
    case 1
    have "fl x = 0"
      by (simp add: fx 1)
    then show ?thesis
      by (simp add: fl_0)
  next
    case 2
    then show ?thesis
      unfolding fx by (intro fl_fix ulp_exp_ge)
  next
    case 3
    have "fl x = of_int (2 ^ 52) * 2 powi (ulp_exp x + 1)"
      by (simp add: fx 3 powi2_add)
    moreover have "fl (of_int (2 ^ 52) * 2 powi (ulp_exp x + 1)) =
        of_int (2 ^ 52) * 2 powi (ulp_exp x + 1)"
      by (rule fl_fix) (use ulp_exp_ge [of x] in simp_all)
    ultimately show ?thesis by simp
  qed
qed

lemma fl_of_nat:
  assumes "n \<le> 2 ^ 53"
  shows "fl (of_nat n) = of_nat n"
proof -
  consider "n = 0" | "0 < n" "n < 2 ^ 53" | "n = 2 ^ 53"
    using assms by linarith
  then show ?thesis
  proof cases
    case 1
    then show ?thesis by (simp add: fl_def)
  next
    case 2
    have "fl (of_int (int n) * 2 powi 0) = of_int (int n) * 2 powi 0"
      by (rule fl_fix) (use 2 in simp_all)
    then show ?thesis by simp
  next
    case 3
    have "fl (of_int (2 ^ 52) * 2 powi 1) = of_int (2 ^ 52) * 2 powi 1"
      by (rule fl_fix) simp_all
    then show ?thesis by (simp add: 3)
  qed
qed

lemma fl_1: "fl 1 = 1"
  using fl_of_nat [of 1] by simp

lemma fl_rel_error:
  assumes "0 \<le> x"
  shows "\<bar>fl x - x\<bar> \<le> x / 2 ^ 53 + 2 powi (- 1075)"
proof (cases "x = 0")
  case True
  then show ?thesis by (simp add: fl_def)
next
  case False
  with assms have x: "0 < x" by simp
  show ?thesis
  proof (cases "ulp_exp x = - 1074")
    case True
    have "\<bar>fl x - x\<bar> \<le> 2 powi (- 1074) / 2"
      using fl_error_ulp [of x] by (simp only: True)
    also have "\<dots> = 2 powi (- 1075)"
      by (simp add: power_int_minus)
    also have "\<dots> \<le> x / 2 ^ 53 + 2 powi (- 1075)"
      using x by simp
    finally show ?thesis .
  next
    case False
    then have n: "- 1074 < ulp_exp x"
      using ulp_exp_ge [of x] by simp
    have "2 powi ulp_exp x * 2 powi 52 \<le> x"
      using normal_lower [OF x n] by (simp add: powi2_add)
    then have "2 powi ulp_exp x / 2 \<le> x / 2 ^ 53"
      by simp
    also have "\<dots> \<le> x / 2 ^ 53 + 2 powi (- 1075)"
      by simp
    finally show ?thesis
      using fl_error_ulp [of x] by linarith
  qed
qed

section \<open>The fusion variables stay in range\<close>

lemma fl_past_2_53: "fl (2 ^ 53 + 1) = 2 ^ 53"
  by code_simp

lemma base_weight_nonneg: "0 \<le> base_weight_of k"
  by (auto simp: base_weight_of_def base_weights_def intro!: fl_nonneg)

lemma confidence_of_range:
  "valid_result r \<Longrightarrow> 0 \<le> confidence_of r \<and> confidence_of r \<le> 1"
  by (auto simp: valid_result_def confidence_of_def split: option.splits)

lemma adjusted_weight_nonneg: "valid_result r \<Longrightarrow> 0 \<le> adjusted_weight_of k r"
  unfolding adjusted_weight_of_def float_mul_def
  by (intro fl_nonneg mult_nonneg_nonneg base_weight_nonneg) (simp add: confidence_of_range)

lemma adjusted_weight_float: "valid_result r \<Longrightarrow> fl (adjusted_weight_of k r) = adjusted_weight_of k r"
  unfolding adjusted_weight_of_def float_mul_def
  by (intro fl_idem mult_nonneg_nonneg base_weight_nonneg) (simp add: confidence_of_range)

lemma weighted_le_weight:
  assumes "0 \<le> p" "p \<le> 1" "0 \<le> w" "fl w = w"
  shows "0 \<le> float_mul p w \<and> float_mul p w \<le> w"
proof -
  have "p * w \<le> 1 * w"
    using assms by (intro mult_right_mono) simp_all
  then have "fl (p * w) \<le> fl w"
    using assms by (intro fl_mono) simp_all
  moreover have "0 \<le> fl (p * w)"
    using assms by (intro fl_nonneg) simp
  ultimately show ?thesis
    using assms(4) by (simp add: float_mul_def)
qed

lemma step_in_range:
  assumes s: "vars_in_range s" and r: "valid_result r"
  shows "vars_in_range (fusion_step s (k, r))"
proof (cases "r ''probability_pd''")
  case None
  then show ?thesis using s by (simp add: fusion_step_no_pd)
next
  case (Some p)
  have p: "0 \<le> p" "p \<le> 1"
    using r Some by (simp_all add: valid_result_def)
  define w where "w = adjusted_weight_of k r"
  have w: "0 \<le> w" "fl w = w"
    using adjusted_weight_nonneg [OF r] adjusted_weight_float [OF r] by (simp_all add: w_def)
  note t = weighted_le_weight [OF p w]
  note c = confidence_of_range [OF r]
  have s': "0 \<le> total_weighted_probability s" "total_weighted_probability s \<le> total_weight s"
      "0 \<le> total_confidence s" "total_confidence s \<le> of_nat (available_models s)"
      "total_confidence s \<le> 2 ^ 53"
    using s by (simp_all add: vars_in_range_def)
  have 1: "0 \<le> float_add (total_weighted_probability s) (float_mul p w)"
    unfolding float_add_def using s' t by (intro fl_nonneg) simp
  have 2: "float_add (total_weighted_probability s) (float_mul p w) \<le> float_add (total_weight s) w"
    unfolding float_add_def using s' t by (intro fl_mono) simp_all
  have 3: "0 \<le> float_add (total_confidence s) (confidence_of r)"
    unfolding float_add_def using s' c by (intro fl_nonneg) simp
  have "fl (total_confidence s + confidence_of r) \<le> fl (2 ^ 53 + 1)"
    using s' c by (intro fl_mono) simp_all
  then have 5: "float_add (total_confidence s) (confidence_of r) \<le> 2 ^ 53"
    by (simp only: float_add_def fl_past_2_53)
  have 4: "float_add (total_confidence s) (confidence_of r) \<le> of_nat (available_models s + 1)"
  proof (cases "available_models s + 1 \<le> 2 ^ 53")
    case True
    have "fl (total_confidence s + confidence_of r) \<le> fl (of_nat (available_models s + 1))"
      using s' c by (intro fl_mono) simp_all
    also have "\<dots> = of_nat (available_models s + 1)"
      by (rule fl_of_nat [OF True])
    finally show ?thesis
      by (simp add: float_add_def)
  next
    case False
    then have "(2::nat) ^ 53 \<le> available_models s + 1"
      by simp
    then have "(of_nat (2 ^ 53) :: rat) \<le> of_nat (available_models s + 1)"
      by (simp only: of_nat_le_iff)
    with 5 show ?thesis
      by simp
  qed
  show ?thesis
    using 1 2 3 4 5 by (simp add: fusion_step_pd [of r p, OF Some] vars_in_range_def w_def)
qed

lemma loop_in_range:
  "vars_in_range s \<Longrightarrow> valid_results rs \<Longrightarrow> vars_in_range (foldl fusion_step s rs)"
proof (induction rs arbitrary: s)
  case Nil
  then show ?case by simp
next
  case (Cons x rs)
  obtain k r where x: "x = (k, r)" by (cases x)
  have r: "valid_result r" and rs: "valid_results rs"
    using Cons.prems(2) by (simp_all add: valid_results_def x)
  have "vars_in_range (fusion_step s x)"
    unfolding x by (rule step_in_range [OF Cons.prems(1) r])
  from Cons.IH [OF this rs] show ?case
    by simp
qed

lemma fusion_loop_in_range:
  assumes "valid_results rs"
  shows "vars_in_range (fusion_loop rs)"
proof -
  have "vars_in_range fusion_init"
    by (simp add: vars_in_range_def fusion_init_def)
  from loop_in_range [OF this assms] show ?thesis
    by (simp add: fusion_loop_def)
qed

lemma fl_unit_interval: "0 \<le> x \<Longrightarrow> x \<le> 1 \<Longrightarrow> 0 \<le> fl x \<and> fl x \<le> 1"
  using fl_nonneg [of x] fl_mono [of x 1] by (simp add: fl_1)

lemma fl_error_unit:
  assumes "0 \<le> x" "x \<le> 1"
  shows "\<bar>fl x - x\<bar> \<le> 1 / 2 ^ 52"
proof -
  have a: "(2::rat) powi (- 1075) \<le> 2 powi (- 53)"
    by (rule powi2_mono) simp
  have b: "(2::rat) powi (- 53) = 1 / 2 ^ 53"
    by (simp add: power_int_minus field_simps)
  have "\<bar>fl x - x\<bar> \<le> x / 2 ^ 53 + 2 powi (- 1075)"
    by (rule fl_rel_error [OF assms(1)])
  also have "\<dots> \<le> 1 / 2 ^ 53 + 2 powi (- 53)"
    by (intro add_mono divide_right_mono a assms) simp
  also have "\<dots> = 1 / 2 ^ 52"
    unfolding b by simp
  finally show ?thesis .
qed

section \<open>A single result\<close>

lemma base_weight_lower: "1 / 16 \<le> base_weight_of k"
proof -
  have "1 / 16 \<le> fl (20 / 100)" "1 / 16 \<le> fl (50 / 100)" "1 / 16 \<le> fl (30 / 100)"
      "1 / 16 \<le> fl (1 / 10)"
    by code_simp+
  then show ?thesis
    by (auto simp: base_weight_of_def base_weights_def)
qed

lemma fl_powi: "- 1074 \<le> e \<Longrightarrow> fl (2 powi e) = 2 powi e"
  using fl_fix [of 1 e] by simp

lemma fl_add_0: "0 \<le> x \<Longrightarrow> float_add 0 (fl x) = fl x"
  by (simp add: float_add_def fl_idem)

lemma single_result_vars:
  assumes p: "r ''probability_pd'' = Some p" and r: "valid_result r"
    and c: "is_float (confidence_of r)"
  shows "fusion_loop [(k, r)] =
     \<lparr>total_weighted_probability = float_mul p (adjusted_weight_of k r),
      total_weight = adjusted_weight_of k r,
      total_confidence = confidence_of r,
      available_models = 1\<rparr>"
proof -
  have p01: "0 \<le> p" "p \<le> 1"
    using r p by (simp_all add: valid_result_def)
  have w: "0 \<le> adjusted_weight_of k r"
    by (rule adjusted_weight_nonneg [OF r])
  have 1: "float_add 0 (float_mul p (adjusted_weight_of k r)) = float_mul p (adjusted_weight_of k r)"
    unfolding float_mul_def using p01 w by (intro fl_add_0) simp
  have 2: "float_add 0 (adjusted_weight_of k r) = adjusted_weight_of k r"
    using adjusted_weight_float [OF r, of k] by (simp add: float_add_def)
  have 3: "float_add 0 (confidence_of r) = confidence_of r"
    using c by (simp add: float_add_def is_float_def)
  show ?thesis
    by (simp add: fusion_loop_def fusion_init_def fusion_step_pd [of r p, OF p] 1 2 3)
qed

lemma quotient_rounding:
  assumes p: "0 \<le> p" "p \<le> 1" and w: "2 powi (- 1022) \<le> w" "fl w = w"
  shows "\<bar>fl (fl (p * w) / w) - p\<bar> \<le> 1 / 2 ^ 51"
proof -
  have w0: "0 < w"
    using w(1) by (rule less_le_trans [OF powi2_pos])
  define t where "t = fl (p * w)"
  have t: "0 \<le> t" "t \<le> w"
    using weighted_le_weight [OF p less_imp_le [OF w0] w(2)] by (simp_all add: t_def float_mul_def)
  have e1: "\<bar>t - p * w\<bar> \<le> p * w / 2 ^ 53 + 2 powi (- 1075)"
    unfolding t_def using p w0 by (intro fl_rel_error) simp
  have "\<bar>t / w - p\<bar> = \<bar>t - p * w\<bar> / w"
    using w0 by (simp add: field_simps abs_divide)
  also have "\<dots> \<le> (p * w / 2 ^ 53 + 2 powi (- 1075)) / w"
    using e1 w0 by (intro divide_right_mono) simp_all
  also have "\<dots> = p / 2 ^ 53 + 2 powi (- 1075) / w"
    using w0 by (simp add: add_divide_distrib)
  also have "\<dots> \<le> 1 / 2 ^ 53 + 2 powi (- 1075) / 2 powi (- 1022)"
    using p w w0 by (intro add_mono divide_right_mono divide_left_mono) simp_all
  also have "\<dots> = 1 / 2 ^ 53 + 2 powi (- 1075 - (- 1022))"
    by (simp only: powi2_diff)
  also have "\<dots> = 1 / 2 ^ 52"
    by (simp add: power_int_minus field_simps)
  finally have a: "\<bar>t / w - p\<bar> \<le> 1 / 2 ^ 52" .
  have q: "0 \<le> t / w" "t / w \<le> 1"
    using t w0 by simp_all
  have b: "\<bar>fl (t / w) - t / w\<bar> \<le> 1 / 2 ^ 52"
    by (rule fl_error_unit [OF q])
  have "\<bar>fl (t / w) - p\<bar> \<le> \<bar>fl (t / w) - t / w\<bar> + \<bar>t / w - p\<bar>"
    by simp
  also have "\<dots> \<le> 1 / 2 ^ 52 + 1 / 2 ^ 52"
    by (rule add_mono [OF b a])
  also have "\<dots> = 1 / 2 ^ 51"
    by simp
  finally show ?thesis
    by (simp only: t_def)
qed

lemma adjusted_weight_normal:
  assumes r: "valid_result r" and c: "2 powi (- 1018) \<le> confidence_of r"
  shows "2 powi (- 1022) \<le> adjusted_weight_of k r"
proof -
  have "(2::rat) powi (- 1022) = 2 powi (- 4) * 2 powi (- 1018)"
    by (simp only: powi2_add [symmetric]) simp
  also have "\<dots> = (1 / 16) * 2 powi (- 1018)"
    by (simp add: power_int_minus)
  also have "\<dots> \<le> base_weight_of k * confidence_of r"
    using base_weight_lower [of k] c by (intro mult_mono) simp_all
  finally have "fl (2 powi (- 1022)) \<le> fl (base_weight_of k * confidence_of r)"
    by (intro fl_mono less_imp_le [OF powi2_pos])
  moreover have "fl (2 powi (- 1022)) = 2 powi (- 1022)"
    by (rule fl_powi) simp
  ultimately show ?thesis
    unfolding adjusted_weight_of_def float_mul_def by (simp only:)
qed

section \<open>Distance of the rounded fusion from the exact weighted average\<close>

lemma contributions_Nil: "contributions [] = []"
  by (simp add: contributions_def)

lemma contributions_Cons:
  "contributions ((k, r) # rs) =
     (case r ''probability_pd'' of None \<Rightarrow> contributions rs
      | Some p \<Rightarrow> (p, base_weight_of k, confidence_of r) # contributions rs)"
  by (simp add: contributions_def split: option.splits)

lemma contributions_append: "contributions (xs @ ys) = contributions xs @ contributions ys"
  by (simp add: contributions_def)

lemma length_contributions: "length (contributions rs) \<le> length rs"
  by (simp add: contributions_def)

lemma float_sum_Nil: "float_sum acc [] = acc"
  by (simp add: float_sum_def)

lemma float_sum_Cons: "float_sum acc (x # xs) = float_sum (float_add acc x) xs"
  by (simp add: float_sum_def)

lemma loop_fields:
  "total_weighted_probability (foldl fusion_step s rs) =
     float_sum (total_weighted_probability s)
       (map (\<lambda>(p, b, c). float_mul p (float_mul b c)) (contributions rs)) \<and>
   total_weight (foldl fusion_step s rs) =
     float_sum (total_weight s) (map (\<lambda>(p, b, c). float_mul b c) (contributions rs)) \<and>
   total_confidence (foldl fusion_step s rs) =
     float_sum (total_confidence s) (map (\<lambda>(p, b, c). c) (contributions rs)) \<and>
   available_models (foldl fusion_step s rs) =
     available_models s + length (contributions rs)"
proof (induction rs arbitrary: s)
  case Nil
  then show ?case by (simp add: contributions_Nil float_sum_Nil)
next
  case (Cons x rs)
  obtain k r where x: "x = (k, r)" by (cases x)
  show ?case
  proof (cases "r ''probability_pd''")
    case None
    then show ?thesis
      by (simp add: x Cons.IH contributions_Cons fusion_step_no_pd)
  next
    case (Some p)
    then show ?thesis
      by (simp add: x Cons.IH contributions_Cons fusion_step_pd [of r p] float_sum_Cons
          adjusted_weight_of_def)
  qed
qed

lemma fl_error_bounded:
  assumes "0 \<le> x" "x \<le> of_nat M" "1 \<le> M"
  shows "\<bar>fl x - x\<bar> \<le> of_nat M / 2 ^ 52"
proof -
  have a: "(2::rat) powi (- 1075) \<le> 2 powi (- 53)"
    by (rule powi2_mono) simp
  have b: "(2::rat) powi (- 53) = 1 / 2 ^ 53"
    by (simp add: power_int_minus field_simps)
  have m: "(1::rat) \<le> of_nat M"
    using assms(3) by simp
  have "\<bar>fl x - x\<bar> \<le> x / 2 ^ 53 + 2 powi (- 1075)"
    by (rule fl_rel_error [OF assms(1)])
  also have "\<dots> \<le> of_nat M / 2 ^ 53 + 2 powi (- 53)"
    by (intro add_mono divide_right_mono a assms) simp
  also have "\<dots> = of_nat M / 2 ^ 53 + 1 / 2 ^ 53"
    by (simp only: b)
  also have "\<dots> \<le> of_nat M / 2 ^ 53 + of_nat M / 2 ^ 53"
    by (intro add_mono divide_right_mono m) simp_all
  also have "\<dots> = of_nat M / 2 ^ 52"
    by simp
  finally show ?thesis .
qed

lemma float_sum_error:
  "\<forall>x \<in> set xs. 0 \<le> x \<and> x \<le> 1 \<Longrightarrow> 0 \<le> acc \<Longrightarrow> acc \<le> of_nat a \<Longrightarrow>
   a + length xs \<le> 2 ^ 53 \<Longrightarrow>
   \<bar>float_sum acc xs - (acc + sum_list xs)\<bar> \<le> of_nat (length xs) * of_nat (a + length xs) / 2 ^ 52 \<and>
   0 \<le> float_sum acc xs \<and> float_sum acc xs \<le> of_nat (a + length xs)"
proof (induction xs arbitrary: acc a)
  case Nil
  then show ?case by (simp add: float_sum_Nil)
next
  case (Cons x xs)
  define n where "n = length xs"
  have x: "0 \<le> x" "x \<le> 1"
    using Cons.prems(1) by simp_all
  have s: "0 \<le> acc + x" "acc + x \<le> of_nat (a + 1)"
    using x Cons.prems(2,3) by simp_all
  have s': "acc + x \<le> of_nat (a + Suc n)"
  proof -
    have "(of_nat (a + 1) :: rat) \<le> of_nat (a + Suc n)"
      by (simp only: of_nat_le_iff)
    with s(2) show ?thesis by linarith
  qed
  have e1: "\<bar>fl (acc + x) - (acc + x)\<bar> \<le> of_nat (a + Suc n) / 2 ^ 52"
    by (rule fl_error_bounded [OF s(1) s']) simp
  have u0: "0 \<le> fl (acc + x)"
    by (rule fl_nonneg [OF s(1)])
  have "fl (acc + x) \<le> fl (of_nat (a + 1))"
    by (rule fl_mono [OF s])
  also have "\<dots> = of_nat (a + 1)"
    by (rule fl_of_nat) (use Cons.prems(4) in simp)
  finally have u1: "fl (acc + x) \<le> of_nat (a + 1)" .
  have len: "(a + 1) + length xs \<le> 2 ^ 53"
    using Cons.prems(4) by simp
  have all: "\<forall>x \<in> set xs. 0 \<le> x \<and> x \<le> 1"
    using Cons.prems(1) by simp
  note IH = Cons.IH [OF all u0 u1 len]
  have an: "a + 1 + n = a + Suc n"
    by simp
  have e2: "\<bar>float_sum (fl (acc + x)) xs - (fl (acc + x) + sum_list xs)\<bar>
      \<le> of_nat n * of_nat (a + Suc n) / 2 ^ 52"
    using IH by (simp add: n_def)
  have "\<bar>float_sum (fl (acc + x)) xs - (acc + x + sum_list xs)\<bar>
      \<le> \<bar>float_sum (fl (acc + x)) xs - (fl (acc + x) + sum_list xs)\<bar> + \<bar>fl (acc + x) - (acc + x)\<bar>"
    by linarith
  also have "\<dots> \<le> of_nat n * of_nat (a + Suc n) / 2 ^ 52 + of_nat (a + Suc n) / 2 ^ 52"
    by (rule add_mono [OF e2 e1])
  also have "\<dots> = of_nat (Suc n) * of_nat (a + Suc n) / 2 ^ 52"
    by (simp add: field_simps)
  finally have e: "\<bar>float_sum (fl (acc + x)) xs - (acc + x + sum_list xs)\<bar>
      \<le> of_nat (Suc n) * of_nat (a + Suc n) / 2 ^ 52" .
  have r: "0 \<le> float_sum (fl (acc + x)) xs" "float_sum (fl (acc + x)) xs \<le> of_nat (a + Suc n)"
    using IH by (simp_all add: n_def)
  show ?case
    using e r by (simp add: float_sum_Cons float_add_def n_def add.assoc)
qed

lemma sum_list_error:
  "\<forall>x \<in> set xs. \<bar>f x - g x\<bar> \<le> (e::rat) \<Longrightarrow>
   \<bar>sum_list (map f xs) - sum_list (map g xs)\<bar> \<le> of_nat (length xs) * e"
proof (induction xs)
  case Nil
  then show ?case by simp
next
  case (Cons x xs)
  have "\<bar>f x - g x\<bar> \<le> e" "\<bar>sum_list (map f xs) - sum_list (map g xs)\<bar> \<le> of_nat (length xs) * e"
    using Cons by simp_all
  then have "\<bar>(f x + sum_list (map f xs)) - (g x + sum_list (map g xs))\<bar> \<le> e + of_nat (length xs) * e"
    by linarith
  then show ?case
    by (simp add: algebra_simps)
qed

lemma quotient_error:
  fixes N D N' D' e :: rat
  assumes "0 \<le> N'" "N' \<le> D'" "0 < D" "0 < D'" "\<bar>N - N'\<bar> \<le> e" "\<bar>D - D'\<bar> \<le> e"
  shows "\<bar>N / D - N' / D'\<bar> \<le> 2 * e / D"
proof -
  have e0: "0 \<le> e"
    using assms(5) by linarith
  have "N / D - N' / D' = ((N - N') * D' - N' * (D - D')) / (D * D')"
    using assms(3,4) by (simp add: field_simps)
  then have "\<bar>N / D - N' / D'\<bar> = \<bar>(N - N') * D' - N' * (D - D')\<bar> / (D * D')"
    using assms(3,4) by (simp add: abs_divide abs_mult)
  also have "\<dots> \<le> (e * D' + D' * e) / (D * D')"
  proof (rule divide_right_mono)
    have "\<bar>(N - N') * D'\<bar> \<le> e * D'"
      using assms(4,5) by (simp add: abs_mult mult_right_mono)
    moreover have "\<bar>N' * (D - D')\<bar> \<le> D' * e"
      using assms(1,2,6) e0 by (simp add: abs_mult mult_mono)
    ultimately show "\<bar>(N - N') * D' - N' * (D - D')\<bar> \<le> e * D' + D' * e"
      by linarith
    show "0 \<le> D * D'"
      using assms(3,4) by simp
  qed
  also have "\<dots> = 2 * e / D"
    using assms(3,4) by (simp add: field_simps)
  finally show ?thesis .
qed

lemma base_weight_upper: "base_weight_of k \<le> 1"
proof -
  have "fl (20 / 100) \<le> 1" "fl (50 / 100) \<le> 1" "fl (30 / 100) \<le> 1" "fl (1 / 10) \<le> 1"
    by code_simp+
  then show ?thesis
    by (auto simp: base_weight_of_def base_weights_def)
qed

lemma valid_contributions:
  "valid_results rs \<Longrightarrow> \<forall>x \<in> set (contributions rs). valid_contribution x"
proof (induction rs)
  case Nil
  then show ?case by (simp add: contributions_Nil)
next
  case (Cons x rs)
  obtain k r where x: "x = (k, r)" by (cases x)
  have r: "valid_result r" and rs: "valid_results rs"
    using Cons.prems by (simp_all add: valid_results_def x)
  show ?case
    using Cons.IH [OF rs] r confidence_of_range [OF r] base_weight_nonneg [of k]
      base_weight_upper [of k]
    by (auto simp: x contributions_Cons valid_contribution_def valid_result_def
        split: option.splits)
qed

lemma weight_term:
  assumes "valid_contribution (p, b, c)"
  shows "0 \<le> float_mul b c \<and> float_mul b c \<le> 1 \<and> \<bar>float_mul b c - b * c\<bar> \<le> 1 / 2 ^ 52
         \<and> fl (float_mul b c) = float_mul b c"
proof -
  have b: "0 \<le> b * c" "b * c \<le> 1"
    using assms by (simp_all add: valid_contribution_def mult_le_one)
  show ?thesis
    unfolding float_mul_def
    using fl_unit_interval [OF b] fl_error_unit [OF b] fl_idem [OF b(1)] by simp
qed

lemma weighted_term:
  assumes "valid_contribution (p, b, c)"
  shows "0 \<le> float_mul p (float_mul b c) \<and> float_mul p (float_mul b c) \<le> 1 \<and>
         \<bar>float_mul p (float_mul b c) - p * (b * c)\<bar> \<le> 2 / 2 ^ 52"
proof -
  define w where "w = float_mul b c"
  have w: "0 \<le> w" "w \<le> 1" "\<bar>w - b * c\<bar> \<le> 1 / 2 ^ 52"
    using weight_term [OF assms] by (simp_all add: w_def)
  have p: "0 \<le> p" "p \<le> 1"
    using assms by (simp_all add: valid_contribution_def)
  have q: "0 \<le> p * w" "p * w \<le> 1"
    using p w by (simp_all add: mult_le_one)
  have "\<bar>p * w - p * (b * c)\<bar> = p * \<bar>w - b * c\<bar>"
    using p by (simp add: abs_mult right_diff_distrib [symmetric])
  also have "\<dots> \<le> 1 * (1 / 2 ^ 52)"
    using p w by (intro mult_mono) simp_all
  finally have a: "\<bar>p * w - p * (b * c)\<bar> \<le> 1 / 2 ^ 52"
    by simp
  have "\<bar>fl (p * w) - p * (b * c)\<bar> \<le> \<bar>fl (p * w) - p * w\<bar> + \<bar>p * w - p * (b * c)\<bar>"
    by linarith
  also have "\<dots> \<le> 1 / 2 ^ 52 + 1 / 2 ^ 52"
    by (rule add_mono [OF fl_error_unit [OF q] a])
  finally have "\<bar>fl (p * w) - p * (b * c)\<bar> \<le> 2 / 2 ^ 52"
    by simp
  moreover have "float_mul p (float_mul b c) = fl (p * w)"
    by (simp add: float_mul_def w_def)
  ultimately show ?thesis
    using fl_unit_interval [OF q] by simp
qed

lemma small_count:
  assumes "n \<le> (16::nat)"
  shows "(of_nat n * of_nat n + 2 * of_nat n :: rat) \<le> 288"
proof -
  have n: "(of_nat n :: rat) \<le> 16"
    using assms by (metis of_nat_le_iff of_nat_numeral)
  have "(of_nat n :: rat) * of_nat n \<le> 16 * 16"
    using n by (intro mult_mono) simp_all
  with n show ?thesis by linarith
qed

lemma fusion_sums_close:
  assumes v: "valid_results rs" and l: "length rs \<le> 16"
  shows "\<bar>total_weighted_probability (fusion_loop rs) - exact_weighted_sum rs\<bar> \<le> 288 / 2 ^ 52 \<and>
         \<bar>total_weight (fusion_loop rs) - exact_weight_sum rs\<bar> \<le> 288 / 2 ^ 52 \<and>
         0 \<le> exact_weighted_sum rs \<and> exact_weighted_sum rs \<le> exact_weight_sum rs"
proof -
  define xs where "xs = contributions rs"
  define n where "n = length xs"
  have n: "n \<le> 16"
    using length_contributions [of rs] l by (simp add: n_def xs_def)
  have vc: "\<forall>x \<in> set xs. valid_contribution x"
    using valid_contributions [OF v] by (simp add: xs_def)
  define W where "W = (\<lambda>(p :: rat, b, c). float_mul b c)"
  define T where "T = (\<lambda>(p, b, c). float_mul p (float_mul b c))"
  define W' where "W' = (\<lambda>(p :: rat, b :: rat, c). b * c)"
  define T' where "T' = (\<lambda>(p :: rat, b, c). p * (b * c))"
  have big: "0 + length (map W xs) \<le> 2 ^ 53" "0 + length (map T xs) \<le> 2 ^ 53"
    using n by (simp_all add: n_def)
  have Wr: "\<forall>y \<in> set (map W xs). 0 \<le> y \<and> y \<le> 1"
    using vc weight_term by (auto simp: W_def)
  have Tr: "\<forall>y \<in> set (map T xs). 0 \<le> y \<and> y \<le> 1"
    using vc weighted_term by (auto simp: T_def)
  have We: "\<forall>x \<in> set xs. \<bar>W x - W' x\<bar> \<le> 1 / 2 ^ 52"
    using vc weight_term by (auto simp: W_def W'_def)
  have Te: "\<forall>x \<in> set xs. \<bar>T x - T' x\<bar> \<le> 2 / 2 ^ 52"
    using vc weighted_term by (auto simp: T_def T'_def)
  have D1: "\<bar>float_sum 0 (map W xs) - sum_list (map W xs)\<bar> \<le> of_nat n * of_nat n / 2 ^ 52"
    using float_sum_error [OF Wr _ _ big(1), of 0] by (simp add: n_def)
  have D2: "\<bar>sum_list (map W xs) - sum_list (map W' xs)\<bar> \<le> of_nat n * (1 / 2 ^ 52)"
    using sum_list_error [OF We] by (simp add: n_def)
  have N1: "\<bar>float_sum 0 (map T xs) - sum_list (map T xs)\<bar> \<le> of_nat n * of_nat n / 2 ^ 52"
    using float_sum_error [OF Tr _ _ big(2), of 0] by (simp add: n_def)
  have N2: "\<bar>sum_list (map T xs) - sum_list (map T' xs)\<bar> \<le> of_nat n * (2 / 2 ^ 52)"
    using sum_list_error [OF Te] by (simp add: n_def)
  have c: "(of_nat n * of_nat n + 2 * of_nat n :: rat) / 2 ^ 52 \<le> 288 / 2 ^ 52"
    by (intro divide_right_mono small_count [OF n]) simp
  have n0: "(0::rat) \<le> of_nat n"
    by simp
  have "\<bar>float_sum 0 (map W xs) - sum_list (map W' xs)\<bar>
      \<le> of_nat n * of_nat n / 2 ^ 52 + of_nat n * (1 / 2 ^ 52)"
    using D1 D2 by linarith
  also have "\<dots> \<le> (of_nat n * of_nat n + 2 * of_nat n) / 2 ^ 52"
    using n0 by (simp add: field_simps)
  also note c
  finally have D: "\<bar>float_sum 0 (map W xs) - sum_list (map W' xs)\<bar> \<le> 288 / 2 ^ 52" .
  have "\<bar>float_sum 0 (map T xs) - sum_list (map T' xs)\<bar>
      \<le> of_nat n * of_nat n / 2 ^ 52 + of_nat n * (2 / 2 ^ 52)"
    using N1 N2 by linarith
  also have "\<dots> = (of_nat n * of_nat n + 2 * of_nat n) / 2 ^ 52"
    by (simp add: field_simps)
  also note c
  finally have N: "\<bar>float_sum 0 (map T xs) - sum_list (map T' xs)\<bar> \<le> 288 / 2 ^ 52" .
  have le: "sum_list (map T' xs) \<le> sum_list (map W' xs)"
  proof (rule sum_list_mono)
    fix x assume "x \<in> set xs"
    then have "valid_contribution x" using vc by simp
    then show "T' x \<le> W' x"
      by (cases x) (simp add: T'_def W'_def valid_contribution_def mult_left_le_one_le)
  qed
  have ge: "0 \<le> sum_list (map T' xs)"
  proof (rule sum_list_nonneg)
    fix y assume "y \<in> set (map T' xs)"
    then obtain x where "x \<in> set xs" "y = T' x" by auto
    with vc show "0 \<le> y"
      by (cases x) (auto simp: T'_def valid_contribution_def)
  qed
  have f: "total_weighted_probability (fusion_loop rs) = float_sum 0 (map T xs)"
      "total_weight (fusion_loop rs) = float_sum 0 (map W xs)"
    using loop_fields [of fusion_init rs]
    by (simp_all add: fusion_loop_def fusion_init_def xs_def T_def W_def)
  show ?thesis
    unfolding f using N D le ge
    by (simp add: exact_weighted_sum_def exact_weight_sum_def xs_def T'_def W'_def)
qed

lemma fused_close_to_exact:
  assumes v: "valid_results rs" and l: "length rs \<le> 16" and d: "1 / 1024 \<le> exact_weight_sum rs"
  shows "0 < total_weight (fusion_loop rs) \<and>
         \<bar>probability_pd (perform_late_fusion rs) - exact_probability_pd rs\<bar> \<le> 3 / 10 ^ 10"
proof -
  define N where "N = total_weighted_probability (fusion_loop rs)"
  define D where "D = total_weight (fusion_loop rs)"
  have c: "\<bar>N - exact_weighted_sum rs\<bar> \<le> 288 / 2 ^ 52"
      "\<bar>D - exact_weight_sum rs\<bar> \<le> 288 / 2 ^ 52"
      "0 \<le> exact_weighted_sum rs" "exact_weighted_sum rs \<le> exact_weight_sum rs"
    using fusion_sums_close [OF v l] by (simp_all add: N_def D_def)
  have "288 / 2 ^ 52 \<le> (1 / 2048 :: rat)"
    by simp
  with c(2) d have D: "1 / 2048 \<le> D"
    by linarith
  then have D0: "0 < D" by linarith
  have D'0: "0 < exact_weight_sum rs"
    using d by linarith
  have r: "0 \<le> N" "N \<le> D"
    using fusion_loop_in_range [OF v] by (simp_all add: vars_in_range_def N_def D_def)
  have q: "0 \<le> N / D" "N / D \<le> 1"
    using r D0 by simp_all
  have "\<bar>N / D - exact_weighted_sum rs / exact_weight_sum rs\<bar> \<le> 2 * (288 / 2 ^ 52) / D"
    by (rule quotient_error) (use c D0 D'0 in simp_all)
  also have "\<dots> \<le> 2 * (288 / 2 ^ 52) / (1 / 2048)"
    by (rule divide_left_mono [OF D]) (use D0 in simp_all)
  finally have a: "\<bar>N / D - exact_probability_pd rs\<bar> \<le> 2 * (288 / 2 ^ 52) / (1 / 2048)"
    by (simp only: exact_probability_pd_def)
  have b: "\<bar>fl (N / D) - N / D\<bar> \<le> 1 / 2 ^ 52"
    by (rule fl_error_unit [OF q])
  have "\<bar>fl (N / D) - exact_probability_pd rs\<bar>
      \<le> \<bar>fl (N / D) - N / D\<bar> + \<bar>N / D - exact_probability_pd rs\<bar>"
    by linarith
  also have "\<dots> \<le> 1 / 2 ^ 52 + 2 * (288 / 2 ^ 52) / (1 / 2048)"
    by (rule add_mono [OF b a])
  also have "\<dots> \<le> 3 / 10 ^ 10"
    by simp
  finally have e: "\<bar>fl (N / D) - exact_probability_pd rs\<bar> \<le> 3 / 10 ^ 10" .
  have "probability_pd (perform_late_fusion rs) = fl (N / D)"
    using D0 by (simp add: perform_late_fusion_def Let_def float_div_def N_def D_def)
  with e D0 show ?thesis
    by (simp add: D_def)
qed

lemma confidence_close_to_exact:
  assumes v: "valid_results rs" and l: "length rs \<le> 16" and d: "0 < total_weight (fusion_loop rs)"
  shows "\<bar>confidence (perform_late_fusion rs) - exact_confidence rs\<bar> \<le> 1 / 10 ^ 10"
proof -
  define xs where "xs = contributions rs"
  define m where "m = length xs"
  define C where "C = total_confidence (fusion_loop rs)"
  have f: "total_weight (fusion_loop rs) = float_sum 0 (map (\<lambda>(p, b, c). float_mul b c) xs)"
      "C = float_sum 0 (map (\<lambda>(p, b, c). c) xs)"
      "available_models (fusion_loop rs) = m"
    using loop_fields [of fusion_init rs]
    by (simp_all add: fusion_loop_def fusion_init_def xs_def C_def m_def)
  have "xs \<noteq> []"
    using d unfolding f by (auto simp: float_sum_Nil)
  then have m0: "0 < m"
    by (simp add: m_def)
  have m16: "m \<le> 16"
    using length_contributions [of rs] l by (simp add: m_def xs_def)
  have vc: "\<forall>x \<in> set xs. valid_contribution x"
    using valid_contributions [OF v] by (simp add: xs_def)
  have cr: "\<forall>y \<in> set (map (\<lambda>(p, b, c). c) xs). 0 \<le> y \<and> y \<le> 1"
    using vc by (auto simp: valid_contribution_def)
  have big: "0 + length (map (\<lambda>(p :: rat, b :: rat, c :: rat). c) xs) \<le> 2 ^ 53"
    using m16 by (simp add: m_def)
  have e: "\<bar>C - sum_list (map (\<lambda>(p, b, c). c) xs)\<bar> \<le> of_nat m * of_nat m / 2 ^ 52"
      and r: "0 \<le> C" "C \<le> of_nat m"
    using float_sum_error [OF cr _ _ big, of 0] by (simp_all add: f m_def)
  have mr: "(1::rat) \<le> of_nat m" "(of_nat m :: rat) \<le> 16"
    using m0 m16 by (simp, metis of_nat_le_iff of_nat_numeral)
  have "of_nat m * of_nat m / 2 ^ 52 \<le> (16 * 16 / 2 ^ 52 :: rat)"
    using mr by (intro divide_right_mono mult_mono) simp_all
  with e have e': "\<bar>C - sum_list (map (\<lambda>(p, b, c). c) xs)\<bar> \<le> 256 / 2 ^ 52"
    by simp
  have "\<bar>C / of_nat m - exact_confidence rs\<bar> = \<bar>C - sum_list (map (\<lambda>(p, b, c). c) xs)\<bar> / of_nat m"
    using m0 by (simp add: exact_confidence_def xs_def [symmetric] m_def [symmetric]
        diff_divide_distrib [symmetric] abs_divide)
  also have "\<dots> \<le> (256 / 2 ^ 52) / 1"
    using e' mr by (intro frac_le) simp_all
  finally have a: "\<bar>C / of_nat m - exact_confidence rs\<bar> \<le> 256 / 2 ^ 52"
    by simp
  have q: "0 \<le> C / of_nat m" "C / of_nat m \<le> 1"
    using r m0 by simp_all
  have b: "\<bar>fl (C / of_nat m) - C / of_nat m\<bar> \<le> 1 / 2 ^ 52"
    by (rule fl_error_unit [OF q])
  have "\<bar>fl (C / of_nat m) - exact_confidence rs\<bar>
      \<le> \<bar>fl (C / of_nat m) - C / of_nat m\<bar> + \<bar>C / of_nat m - exact_confidence rs\<bar>"
    by linarith
  also have "\<dots> \<le> 1 / 2 ^ 52 + 256 / 2 ^ 52"
    by (rule add_mono [OF b a])
  also have "\<dots> \<le> 1 / 10 ^ 10"
    by simp
  finally have t: "\<bar>fl (C / of_nat m) - exact_confidence rs\<bar> \<le> 1 / 10 ^ 10" .
  have n: "float_of_nat m = of_nat m"
    unfolding float_of_nat_def by (rule fl_of_nat) (use m16 in simp)
  have "confidence (perform_late_fusion rs) = fl (C / of_nat m)"
    using d m0 by (simp add: perform_late_fusion_def Let_def f(3) float_div_def n C_def)
  with t show ?thesis by simp
qed

lemma fused_pd_unit:
  assumes v: "valid_results rs" and d: "0 < total_weight (fusion_loop rs)"
  shows "0 \<le> probability_pd (perform_late_fusion rs) \<and> probability_pd (perform_late_fusion rs) \<le> 1"
proof -
  have r: "0 \<le> total_weighted_probability (fusion_loop rs)"
      "total_weighted_probability (fusion_loop rs) \<le> total_weight (fusion_loop rs)"
    using fusion_loop_in_range [OF v] by (simp_all add: vars_in_range_def)
  have q: "0 \<le> total_weighted_probability (fusion_loop rs) / total_weight (fusion_loop rs)"
      "total_weighted_probability (fusion_loop rs) / total_weight (fusion_loop rs) \<le> 1"
    using r d by simp_all
  show ?thesis
    using fl_unit_interval [OF q] d by (simp add: perform_late_fusion_def Let_def float_div_def)
qed

lemma healthy_is_complement:
  assumes v: "valid_results rs" and d: "0 < total_weight (fusion_loop rs)"
  shows "\<bar>probability_healthy (perform_late_fusion rs) -
           (1 - probability_pd (perform_late_fusion rs))\<bar> \<le> 1 / 2 ^ 52"
proof -
  define pd where "pd = probability_pd (perform_late_fusion rs)"
  have h: "0 \<le> 1 - pd" "1 - pd \<le> 1"
    using fused_pd_unit [OF v d] by (simp_all add: pd_def)
  have "probability_healthy (perform_late_fusion rs) = fl (1 - pd)"
    using d by (simp add: perform_late_fusion_def Let_def float_sub_def pd_def)
  then show ?thesis
    using fl_error_unit [OF h] by (simp add: pd_def)
qed

lemma mset_contributions:
  "mset rs' = mset rs \<Longrightarrow> mset (contributions rs') = mset (contributions rs)"
  unfolding contributions_def by simp

lemma sum_list_mset_cong:
  fixes f :: "'a \<Rightarrow> rat"
  shows "mset xs = mset ys \<Longrightarrow> sum_list (map f xs) = sum_list (map f ys)"
proof -
  assume "mset xs = mset ys"
  then have "mset (map f xs) = mset (map f ys)"
    by simp
  then have "sum_mset (mset (map f xs)) = sum_mset (mset (map f ys))"
    by simp
  then show ?thesis
    by (simp only: sum_mset_sum_list)
qed

lemma exact_permutation:
  assumes "mset rs' = mset rs"
  shows "exact_weight_sum rs' = exact_weight_sum rs \<and>
         exact_probability_pd rs' = exact_probability_pd rs \<and>
         exact_confidence rs' = exact_confidence rs"
proof -
  note m = mset_contributions [OF assms]
  have "length (contributions rs') = length (contributions rs)"
    using m by (rule mset_eq_length)
  then show ?thesis
    using sum_list_mset_cong [OF m]
    by (simp add: exact_weight_sum_def exact_weighted_sum_def exact_probability_pd_def
        exact_confidence_def)
qed

lemma valid_permutation:
  assumes "mset rs' = mset rs" "valid_results rs"
  shows "valid_results rs' \<and> length rs' = length rs"
  using assms mset_eq_setD [OF assms(1)] mset_eq_length [OF assms(1)]
  by (simp add: valid_results_def list_all_iff)

section \<open>Reordering the results and changing one confidence\<close>

lemma verdict_close_to_exact:
  assumes v: "valid_results rs" and l: "length rs \<le> 16" and d: "1 / 1024 \<le> exact_weight_sum rs"
  shows "\<bar>probability_pd (perform_late_fusion rs) - exact_probability_pd rs\<bar> \<le> 3 / 10 ^ 10 \<and>
         \<bar>probability_healthy (perform_late_fusion rs) - (1 - exact_probability_pd rs)\<bar> \<le> 4 / 10 ^ 10 \<and>
         \<bar>confidence (perform_late_fusion rs) - exact_confidence rs\<bar> \<le> 1 / 10 ^ 10"
proof -
  have w: "0 < total_weight (fusion_loop rs)"
      and a: "\<bar>probability_pd (perform_late_fusion rs) - exact_probability_pd rs\<bar> \<le> 3 / 10 ^ 10"
    using fused_close_to_exact [OF v l d] by simp_all
  note b = healthy_is_complement [OF v w]
  have "\<bar>probability_healthy (perform_late_fusion rs) - (1 - exact_probability_pd rs)\<bar>
      \<le> \<bar>probability_healthy (perform_late_fusion rs) - (1 - probability_pd (perform_late_fusion rs))\<bar>
        + \<bar>probability_pd (perform_late_fusion rs) - exact_probability_pd rs\<bar>"
    by linarith
  also have "\<dots> \<le> 1 / 2 ^ 52 + 3 / 10 ^ 10"
    by (rule add_mono [OF b a])
  also have "\<dots> \<le> 4 / 10 ^ 10"
    by simp
  finally have h: "\<bar>probability_healthy (perform_late_fusion rs) - (1 - exact_probability_pd rs)\<bar>
      \<le> 4 / 10 ^ 10" .
  show ?thesis
    using a h confidence_close_to_exact [OF v l w] by simp
qed

lemma close_pair:
  fixes x y z e :: rat
  assumes "\<bar>x - z\<bar> \<le> e" "\<bar>y - z\<bar> \<le> e" "e + e \<le> t"
  shows "\<bar>y - x\<bar> \<le> t"
  using assms by linarith

lemma two_results_vars:
  assumes p1: "r1 ''probability_pd'' = Some p1" and p2: "r2 ''probability_pd'' = Some p2"
    and v1: "valid_result r1" and v2: "valid_result r2"
    and f1: "is_float (confidence_of r1)"
  shows "fusion_loop [(k1, r1), (k2, r2)] =
     \<lparr>total_weighted_probability =
        fl (float_mul p1 (adjusted_weight_of k1 r1) + float_mul p2 (adjusted_weight_of k2 r2)),
      total_weight = fl (adjusted_weight_of k1 r1 + adjusted_weight_of k2 r2),
      total_confidence = fl (confidence_of r1 + confidence_of r2),
      available_models = 2\<rparr>"
proof -
  have "fusion_loop [(k1, r1), (k2, r2)] = fusion_step (fusion_loop [(k1, r1)]) (k2, r2)"
    by (simp add: fusion_loop_def)
  then show ?thesis
    by (simp add: single_result_vars [OF p1 v1 f1] fusion_step_pd [of r2 p2, OF p2] float_add_def)
qed

lemma two_results_swap:
  assumes v1: "valid_result r1" and v2: "valid_result r2"
    and f1: "is_float (confidence_of r1)" and f2: "is_float (confidence_of r2)"
  shows "perform_late_fusion [(k1, r1), (k2, r2)] = perform_late_fusion [(k2, r2), (k1, r1)]"
proof -
  have "fusion_loop [(k1, r1), (k2, r2)] = fusion_loop [(k2, r2), (k1, r1)]"
  proof (cases "r1 ''probability_pd''")
    case None
    then show ?thesis
      by (simp add: fusion_loop_def fusion_step_no_pd)
  next
    case s1: (Some p1)
    show ?thesis
    proof (cases "r2 ''probability_pd''")
      case None
      then show ?thesis
        by (simp add: fusion_loop_def fusion_step_no_pd)
    next
      case s2: (Some p2)
      show ?thesis
        unfolding two_results_vars [OF s1 s2 v1 v2 f1] two_results_vars [OF s2 s1 v2 v1 f2]
        by (simp add: add.commute)
    qed
  qed
  then show ?thesis
    by (simp add: perform_late_fusion_def)
qed

lemma contributions_update:
  assumes "r ''probability_pd'' = Some p"
  shows "contributions (xs @ (k, r(''confidence'' \<mapsto> c')) # ys) =
           contributions xs @ (p, base_weight_of k, c') # contributions ys"
    and "contributions (xs @ (k, r) # ys) =
           contributions xs @ (p, base_weight_of k, confidence_of r) # contributions ys"
  using assms by (simp_all add: contributions_append contributions_Cons confidence_of_def)

lemma exact_sums_update:
  assumes "r ''probability_pd'' = Some p"
  shows "exact_weighted_sum (xs @ (k, r(''confidence'' \<mapsto> c')) # ys) =
           exact_weighted_sum (xs @ (k, r) # ys) + p * (base_weight_of k * (c' - confidence_of r))"
    and "exact_weight_sum (xs @ (k, r(''confidence'' \<mapsto> c')) # ys) =
           exact_weight_sum (xs @ (k, r) # ys) + base_weight_of k * (c' - confidence_of r)"
  by (simp_all add: exact_weighted_sum_def exact_weight_sum_def contributions_update [of r p, OF assms]
      algebra_simps)

lemma average_shift_up:
  fixes N D p e :: rat
  assumes "0 < D" "0 < e" "N / D < p"
  shows "N / D < (N + p * e) / (D + e)"
proof -
  have "N < p * D"
    using assms(1,3) by (simp add: pos_divide_less_eq)
  then have "N * e < p * D * e"
    using assms(2) by (rule mult_strict_right_mono)
  then have "N * (D + e) < (N + p * e) * D"
    by (simp add: algebra_simps)
  then show ?thesis
    using assms(1,2) by (simp add: pos_divide_less_eq pos_less_divide_eq algebra_simps)
qed

lemma average_shift_down:
  fixes N D p e :: rat
  assumes "0 < D" "0 < e" "p < N / D"
  shows "(N + p * e) / (D + e) < N / D"
proof -
  have "p * D < N"
    using assms(1,3) by (simp add: pos_less_divide_eq)
  then have "p * D * e < N * e"
    using assms(2) by (rule mult_strict_right_mono)
  then have "(N + p * e) * D < N * (D + e)"
    by (simp add: algebra_simps)
  then show ?thesis
    using assms(1,2) by (simp add: pos_divide_less_eq pos_less_divide_eq algebra_simps)
qed

lemma valid_results_update:
  assumes v: "valid_results (xs @ (k, r) # ys)" and c: "confidence_of r < c'" "c' \<le> 1"
  shows "valid_results (xs @ (k, r(''confidence'' \<mapsto> c')) # ys)"
proof -
  have r: "valid_result r"
    using v by (simp add: valid_results_def)
  have "0 \<le> c'"
    using confidence_of_range [OF r] c(1) by linarith
  then have "valid_result (r(''confidence'' \<mapsto> c'))"
    using r c(2) by (simp add: valid_result_def)
  then show ?thesis
    using v by (simp add: valid_results_def)
qed

section \<open>The fallback verdict (C2)\<close>

text \<open>
  C2. Whenever the total effective weight is zero, that is the result list is empty or
  every result that is used has the effective weight (base weight times confidence) zero,
  fusion returns the fallback verdict: \<open>probability_pd = probability_healthy = 0.5\<close>,
  \<open>confidence = 0.0\<close>, \<open>prediction = 0\<close> and the label \<^verbatim>\<open>Insufficient Data\<close>. The
  function has no raising path, so no exception is raised.
\<close>

theorem zero_total_weight_fallback:
  assumes "\<forall>(k, r) \<in> set rs. r ''probability_pd'' \<noteq> None \<longrightarrow> adjusted_weight_of k r = 0"
  shows "perform_late_fusion rs =
           \<lparr>prediction = 0, prediction_label = ''Insufficient Data'', confidence = 0,
            probability_pd = 1 / 2, probability_healthy = 1 / 2\<rparr>"
proof -
  have "total_weight (fusion_loop rs) = 0"
    unfolding fusion_loop_def by (rule foldl_zero_weight [OF assms]) (simp add: fusion_init_def)
  then show ?thesis
    by (simp add: perform_late_fusion_def fallback_verdict_def)
qed

theorem zero_total_weight_fallback_witness:
  "perform_late_fusion [] =
     \<lparr>prediction = 0, prediction_label = ''Insufficient Data'', confidence = 0,
      probability_pd = 1 / 2, probability_healthy = 1 / 2\<rparr> \<and>
   perform_late_fusion
     [(''voice'', [''probability_pd'' \<mapsto> 3 / 4, ''probability_healthy'' \<mapsto> 1 / 4, ''confidence'' \<mapsto> 0]),
      (''spiral'', Map.empty)] =
     \<lparr>prediction = 0, prediction_label = ''Insufficient Data'', confidence = 0,
      probability_pd = 1 / 2, probability_healthy = 1 / 2\<rparr>"
proof
  show "perform_late_fusion [] =
     \<lparr>prediction = 0, prediction_label = ''Insufficient Data'', confidence = 0,
      probability_pd = 1 / 2, probability_healthy = 1 / 2\<rparr>"
    by (rule zero_total_weight_fallback) simp
  show "perform_late_fusion
     [(''voice'', [''probability_pd'' \<mapsto> 3 / 4, ''probability_healthy'' \<mapsto> 1 / 4, ''confidence'' \<mapsto> 0]),
      (''spiral'', Map.empty)] =
     \<lparr>prediction = 0, prediction_label = ''Insufficient Data'', confidence = 0,
      probability_pd = 1 / 2, probability_healthy = 1 / 2\<rparr>"
    by (rule zero_total_weight_fallback)
       (simp add: adjusted_weight_of_def confidence_of_def float_mul_0_right)
qed

section \<open>The decision threshold (C7)\<close>

text \<open>
  C7. For every verdict fused with a positive total weight, the prediction is 1 exactly
  when the fused \<open>probability_pd\<close> is strictly greater than 0.5, and 0 otherwise: a fused
  probability equal to the threshold gives the prediction 0.
\<close>

theorem prediction_strict_threshold:
  assumes "0 < total_weight (fusion_loop rs)"
  shows "(prediction (perform_late_fusion rs) = 1 \<longleftrightarrow>
            1 / 2 < probability_pd (perform_late_fusion rs)) \<and>
         (prediction (perform_late_fusion rs) = 0 \<longleftrightarrow>
            probability_pd (perform_late_fusion rs) \<le> 1 / 2)"
  using assms by (simp add: perform_late_fusion_def Let_def)

text \<open>
  The witness is a tie: a datscan result with probability 0 and confidence 0.6 and a
  spiral result with probability 1 and confidence 1 have the same effective weight, and
  the fused probability is 0.5 exactly.
\<close>

theorem prediction_strict_threshold_witness:
  "0 < total_weight (fusion_loop
     [(''datscan'', [''probability_pd'' \<mapsto> 0, ''probability_healthy'' \<mapsto> 1, ''confidence'' \<mapsto> fl (3 / 5)]),
      (''spiral'', [''probability_pd'' \<mapsto> 1, ''probability_healthy'' \<mapsto> 0, ''confidence'' \<mapsto> 1])]) \<and>
   probability_pd (perform_late_fusion
     [(''datscan'', [''probability_pd'' \<mapsto> 0, ''probability_healthy'' \<mapsto> 1, ''confidence'' \<mapsto> fl (3 / 5)]),
      (''spiral'', [''probability_pd'' \<mapsto> 1, ''probability_healthy'' \<mapsto> 0, ''confidence'' \<mapsto> 1])]) = 1 / 2 \<and>
   prediction (perform_late_fusion
     [(''datscan'', [''probability_pd'' \<mapsto> 0, ''probability_healthy'' \<mapsto> 1, ''confidence'' \<mapsto> fl (3 / 5)]),
      (''spiral'', [''probability_pd'' \<mapsto> 1, ''probability_healthy'' \<mapsto> 0, ''confidence'' \<mapsto> 1])]) = 0"
proof -
  let ?rs = "[(''datscan'', [''probability_pd'' \<mapsto> 0, ''probability_healthy'' \<mapsto> 1, ''confidence'' \<mapsto> fl (3 / 5)]),
      (''spiral'', [''probability_pd'' \<mapsto> (1::rat), ''probability_healthy'' \<mapsto> 0, ''confidence'' \<mapsto> 1])]"
  have w: "0 < total_weight (fusion_loop ?rs)"
    by (simp only: tie_total_weight) simp
  have p: "probability_pd (perform_late_fusion ?rs) = 1 / 2"
    by (rule tie_pd)
  from prediction_strict_threshold [OF w] p
  have "prediction (perform_late_fusion ?rs) = 0" by simp
  with w p show ?thesis by simp
qed

section \<open>Results without a confidence or without a probability (C10)\<close>

text \<open>
  C10. A result dict that has a \<^verbatim>\<open>probability_pd\<close> entry and no \<^verbatim>\<open>confidence\<close> entry
  is fused exactly as the same dict with the confidence 0.5: the default enters the
  effective weight and the mean confidence. A result dict without a \<^verbatim>\<open>probability_pd\<close>
  entry is skipped: the verdict is that of the list without it.
\<close>

theorem missing_confidence_defaults_to_half:
  "(r ''probability_pd'' \<noteq> None \<and> r ''confidence'' = None \<longrightarrow>
      perform_late_fusion (xs @ (k, r) # ys) =
      perform_late_fusion (xs @ (k, r(''confidence'' \<mapsto> 1 / 2)) # ys)) \<and>
   (r ''probability_pd'' = None \<longrightarrow>
      perform_late_fusion (xs @ (k, r) # ys) = perform_late_fusion (xs @ ys))"
  by (simp add: perform_late_fusion_def fusion_loop_def fusion_step_no_pd
        fusion_step_default_confidence)

theorem missing_confidence_defaults_to_half_witness:
  "perform_late_fusion [(''datscan'', [''probability_pd'' \<mapsto> 3 / 4]), (''voice'', Map.empty)] =
     \<lparr>prediction = 1, prediction_label = ''Parkinson's Disease'', confidence = 1 / 2,
      probability_pd = 3 / 4, probability_healthy = 1 / 4\<rparr>"
proof -
  have "perform_late_fusion ([(''datscan'', [''probability_pd'' \<mapsto> 3 / 4])] @ (''voice'', Map.empty) # []) =
        perform_late_fusion ([(''datscan'', [''probability_pd'' \<mapsto> 3 / 4])] @ [])"
    using missing_confidence_defaults_to_half
      [of Map.empty "[(''datscan'', [''probability_pd'' \<mapsto> 3 / 4])]" "''voice''" "[]"]
    by simp
  moreover have "perform_late_fusion ([] @ (''datscan'', [''probability_pd'' \<mapsto> 3 / 4]) # []) =
        perform_late_fusion ([] @ (''datscan'', [''probability_pd'' \<mapsto> 3 / 4, ''confidence'' \<mapsto> 1 / 2]) # [])"
    using missing_confidence_defaults_to_half
      [of "[''probability_pd'' \<mapsto> 3 / 4]" "[]" "''datscan''" "[]"]
    by simp
  moreover have "perform_late_fusion [(''datscan'', [''probability_pd'' \<mapsto> 3 / 4, ''confidence'' \<mapsto> 1 / 2])] =
     \<lparr>prediction = 1, prediction_label = ''Parkinson's Disease'', confidence = 1 / 2,
      probability_pd = 3 / 4, probability_healthy = 1 / 4\<rparr>"
    by code_simp
  ultimately show ?thesis
    by simp
qed

section \<open>Malformed results (C3)\<close>

text \<open>
  C3 says that a result list with a malformed entry (probabilities that do not sum to 1,
  or a confidence outside \<open>[0, 1]\<close>) is rejected with a ValidationError. The source has
  no validation: the result below has the probabilities 0.75 and 0.75 and the
  confidence 2, and it is fused into a verdict with the confidence 2.
\<close>

theorem malformed_result_counterexample:
  "\<not> well_formed_result malformed_result \<and>
   perform_late_fusion [(''datscan'', malformed_result)] =
     \<lparr>prediction = 1, prediction_label = ''Parkinson's Disease'', confidence = 2,
      probability_pd = 3 / 4, probability_healthy = 1 / 4\<rparr>"
  by code_simp

text \<open>
  C3, amended. Fusion validates nothing and rejects nothing: the \<^verbatim>\<open>probability_healthy\<close>
  entry of a result is never read (setting or removing it in any result changes nothing),
  and every result with a \<^verbatim>\<open>probability_pd\<close> entry is used with the probability and
  the confidence it has, whatever their values.
\<close>

theorem fusion_never_validates:
  "perform_late_fusion (map (\<lambda>(k, r). (k, r(''probability_healthy'' := h k r))) rs) =
     perform_late_fusion rs \<and>
   (r ''probability_pd'' = Some p \<longrightarrow>
      fusion_step s (k, r) =
        \<lparr>total_weighted_probability =
           float_add (total_weighted_probability s)
             (float_mul p (float_mul (base_weight_of k) (confidence_of r))),
         total_weight =
           float_add (total_weight s) (float_mul (base_weight_of k) (confidence_of r)),
         total_confidence = float_add (total_confidence s) (confidence_of r),
         available_models = available_models s + 1\<rparr>)"
  by (simp add: perform_late_fusion_def fusion_loop_def foldl_healthy_unread)
     (simp add: fusion_step_def Let_def)

theorem fusion_never_validates_witness:
  "perform_late_fusion [(''datscan'', [''probability_pd'' \<mapsto> 3 / 4, ''confidence'' \<mapsto> 2])] =
     \<lparr>prediction = 1, prediction_label = ''Parkinson's Disease'', confidence = 2,
      probability_pd = 3 / 4, probability_healthy = 1 / 4\<rparr>"
proof -
  have "perform_late_fusion [(''datscan'', [''probability_pd'' \<mapsto> 3 / 4, ''confidence'' \<mapsto> 2])] =
        perform_late_fusion [(''datscan'', malformed_result)]"
    using fusion_never_validates [of "\<lambda>_ _. Some (3 / 4)"
        "[(''datscan'', [''probability_pd'' \<mapsto> 3 / 4, ''confidence'' \<mapsto> 2])]" Map.empty 0 fusion_init "''x''"]
    by (simp add: malformed_result_def fun_upd_twist)
  also have "\<dots> = \<lparr>prediction = 1, prediction_label = ''Parkinson's Disease'', confidence = 2,
      probability_pd = 3 / 4, probability_healthy = 1 / 4\<rparr>"
    by code_simp
  finally show ?thesis .
qed

section \<open>Recommendations (C9)\<close>

text \<open>
  C9 says that the recommendations are the confidence-tier items, then one item for
  every contributing modality in the order voice, datscan, spiral, then the two general
  items. The source lists the modality items in the order datscan, voice, spiral, and
  only when the prediction is 1: for a healthy verdict there is no modality item.
\<close>

theorem recommendations_order_counterexample:
  "generate_recommendations pd_verdict [(''voice'', Map.empty), (''datscan'', Map.empty)] \<noteq>
     spec_recommendations pd_verdict [(''voice'', Map.empty), (''datscan'', Map.empty)] \<and>
   generate_recommendations healthy_verdict [(''voice'', Map.empty)] \<noteq>
     spec_recommendations healthy_verdict [(''voice'', Map.empty)] \<and>
   generate_recommendations healthy_verdict [(''voice'', Map.empty)] =
     [''Consider repeat testing in 6-12 months'', ''Monitor for new symptoms'',
      ''Maintain regular exercise routine'', ''Schedule annual neurological check-up'']"
  by (simp add: generate_recommendations_def spec_recommendations_def pd_verdict_def
        healthy_verdict_def tier_items_def modality_items_def modality_item_def
        general_items_def has_key_def fl_7_10 fl_8_10)

text \<open>
  C9, amended. The recommendations are the confidence-tier items, then, when the
  prediction is 1 only, one fixed item for every modality that is a key of
  \<^verbatim>\<open>individual_results\<close> in the order datscan, voice, spiral, then the two general
  items, which are appended for every verdict.
\<close>

theorem recommendations_structure:
  "generate_recommendations v rs =
     tier_items v
     @ (if prediction v = 1 then modality_items [''datscan'', ''voice'', ''spiral''] rs else [])
     @ general_items \<and>
   length general_items = 2"
  by (simp add: generate_recommendations_def tier_items_def modality_items_def
        modality_item_def general_items_def)

theorem recommendations_structure_witness:
  "generate_recommendations pd_verdict [(''voice'', Map.empty), (''datscan'', Map.empty)] =
     [''Schedule comprehensive neurological evaluation'',
      ''Consider referral to movement disorder specialist'',
      ''Begin baseline motor function assessment'',
      ''DATScan results support clinical diagnosis'',
      ''Voice changes warrant speech therapy evaluation'',
      ''Maintain regular exercise routine'',
      ''Schedule annual neurological check-up'']"
  using recommendations_structure [of pd_verdict "[(''voice'', Map.empty), (''datscan'', Map.empty)]"]
  by (simp add: pd_verdict_def tier_items_def modality_items_def modality_item_def
        general_items_def has_key_def fl_7_10)

section \<open>The orchestrator (C4)\<close>

text \<open>
  C4 says that a request with no modality input at all is rejected as a validation
  failure before fusion runs. Neither the endpoint nor the orchestrator checks it: the
  request is answered with the fallback verdict of fusion.
\<close>

theorem no_input_counterexample:
  "multimodal_analysis example_analysers
     \<lparr>voice_file = None, datscan_file = None, spiral_data = None\<rparr> =
   Inr \<lparr>fusion_prediction = 0, fusion_prediction_label = ''Insufficient Data'',
        fusion_confidence = 0, fusion_probability_pd = 1 / 2,
        fusion_probability_healthy = 1 / 2, response_individual_results = [],
        response_models_used = [],
        response_recommendations =
          [''Consider repeat testing in 6-12 months'', ''Monitor for new symptoms'',
           ''Maintain regular exercise routine'', ''Schedule annual neurological check-up''],
        response_errors = None\<rparr>"
  by (simp add: multimodal_analysis_def analyze_multimodal_def run_voice_def run_datscan_def
        run_spiral_def perform_late_fusion_def fusion_loop_def fusion_init_def
        fallback_verdict_def generate_recommendations_def fl_8_10)

text \<open>
  C4, amended. No request is rejected: the endpoint always answers with the response of
  the orchestrator. The orchestrator never raises because a modality failed: the results
  of the modalities that had an input and succeeded, in the order voice, datscan, spiral,
  are the individual results and are what is fused, the failed ones are left out and their
  messages are the errors. A request with no input at all gets the fallback verdict of
  fusion, labelled \<^verbatim>\<open>Insufficient Data\<close>.
\<close>

theorem orchestrator_isolates_failures:
  "multimodal_analysis a d = Inr (analyze_multimodal a d) \<and>
   response_individual_results (analyze_multimodal a d) = successes (requested_outcomes a d) \<and>
   response_models_used (analyze_multimodal a d) = map fst (successes (requested_outcomes a d)) \<and>
   response_errors (analyze_multimodal a d) =
     (if failures (requested_outcomes a d) = [] then None
      else Some (failures (requested_outcomes a d))) \<and>
   fusion_prediction (analyze_multimodal a d) =
     prediction (perform_late_fusion (successes (requested_outcomes a d))) \<and>
   fusion_prediction_label (analyze_multimodal a d) =
     prediction_label (perform_late_fusion (successes (requested_outcomes a d))) \<and>
   fusion_confidence (analyze_multimodal a d) =
     confidence (perform_late_fusion (successes (requested_outcomes a d))) \<and>
   fusion_probability_pd (analyze_multimodal a d) =
     probability_pd (perform_late_fusion (successes (requested_outcomes a d))) \<and>
   fusion_probability_healthy (analyze_multimodal a d) =
     probability_healthy (perform_late_fusion (successes (requested_outcomes a d))) \<and>
   (voice_file d = None \<and> datscan_file d = None \<and> spiral_data d = None \<longrightarrow>
      requested_outcomes a d = [] \<and>
      fusion_prediction_label (analyze_multimodal a d) = ''Insufficient Data'')"
  by (simp add: multimodal_analysis_def analyze_multimodal_def Let_def runs_are_record_all
        record_all_fields)
     (simp add: requested_outcomes_def perform_late_fusion_def fusion_loop_def
        fusion_init_def fallback_verdict_def)

theorem orchestrator_isolates_failures_witness:
  "response_individual_results (analyze_multimodal example_analysers
     \<lparr>voice_file = Some (), datscan_file = Some (), spiral_data = Some ''''\<rparr>) =
     [(''datscan'', [''probability_pd'' \<mapsto> 3 / 4, ''probability_healthy'' \<mapsto> 1 / 4,
                    ''confidence'' \<mapsto> 1])] \<and>
   response_errors (analyze_multimodal example_analysers
     \<lparr>voice_file = Some (), datscan_file = Some (), spiral_data = Some ''''\<rparr>) =
     Some [''Voice analysis failed: Voice analyzer not initialized''] \<and>
   fusion_prediction_label (analyze_multimodal example_analysers
     \<lparr>voice_file = None, datscan_file = None, spiral_data = None\<rparr>) = ''Insufficient Data''"
proof -
  have o: "requested_outcomes example_analysers
      \<lparr>voice_file = Some (), datscan_file = Some (), spiral_data = Some ''''\<rparr> =
      [(''voice'', ''Voice'', Inl ''Voice analyzer not initialized''),
       (''datscan'', ''DATScan'', Inr [''probability_pd'' \<mapsto> 3 / 4,
          ''probability_healthy'' \<mapsto> 1 / 4, ''confidence'' \<mapsto> 1])]"
    by (simp add: requested_outcomes_def example_analysers_def)
  let ?d = "\<lparr>voice_file = Some (), datscan_file = Some (), spiral_data = Some ''''\<rparr>"
  let ?e = "\<lparr>voice_file = None :: unit option, datscan_file = None, spiral_data = None\<rparr>"
  note A = orchestrator_isolates_failures [of example_analysers ?d]
  note B = orchestrator_isolates_failures [of example_analysers ?e]
  have 1: "response_individual_results (analyze_multimodal example_analysers ?d) =
      successes (requested_outcomes example_analysers ?d)"
    using A by blast
  have 2: "response_errors (analyze_multimodal example_analysers ?d) =
     (if failures (requested_outcomes example_analysers ?d) = [] then None
      else Some (failures (requested_outcomes example_analysers ?d)))"
    using A by blast
  have 3: "fusion_prediction_label (analyze_multimodal example_analysers ?e) = ''Insufficient Data''"
  proof -
    from B have "voice_file ?e = None \<and> datscan_file ?e = None \<and> spiral_data ?e = None \<longrightarrow>
      requested_outcomes example_analysers ?e = [] \<and>
      fusion_prediction_label (analyze_multimodal example_analysers ?e) = ''Insufficient Data''"
      by blast
    then show ?thesis
      by simp
  qed
  show ?thesis
    unfolding 1 2 3 o by simp
qed

section \<open>Range of the fused verdict (C6)\<close>

text \<open>
  C6. For every verdict fused from valid results (each probability and each confidence
  in \<open>[0, 1]\<close>), the fused \<open>probability_pd\<close> and \<open>probability_healthy\<close> sum to 1 within the
  tolerance \<open>1e-9\<close>, and the fused confidence and both fused probabilities lie in
  \<open>[0, 1]\<close>. This holds of the rounded binary64 computation, for any number of results.
\<close>

theorem fused_verdict_in_range:
  assumes "valid_results rs"
  shows "\<bar>probability_pd (perform_late_fusion rs) + probability_healthy (perform_late_fusion rs) - 1\<bar>
           \<le> 1 / 10 ^ 9 \<and>
         0 \<le> probability_pd (perform_late_fusion rs) \<and> probability_pd (perform_late_fusion rs) \<le> 1 \<and>
         0 \<le> probability_healthy (perform_late_fusion rs) \<and>
         probability_healthy (perform_late_fusion rs) \<le> 1 \<and>
         0 \<le> confidence (perform_late_fusion rs) \<and> confidence (perform_late_fusion rs) \<le> 1"
proof (cases "0 < total_weight (fusion_loop rs)")
  case False
  then have "perform_late_fusion rs = fallback_verdict"
    by (simp add: perform_late_fusion_def)
  then show ?thesis
    by (simp add: fallback_verdict_def)
next
  case True
  define s where "s = fusion_loop rs"
  have tw: "0 < total_weight s"
    using True by (simp add: s_def)
  have inv: "0 \<le> total_weighted_probability s" "total_weighted_probability s \<le> total_weight s"
      "0 \<le> total_confidence s" "total_confidence s \<le> of_nat (available_models s)"
      "total_confidence s \<le> 2 ^ 53"
    using fusion_loop_in_range [OF assms] by (simp_all add: vars_in_range_def s_def)
  define pd where "pd = float_div (total_weighted_probability s) (total_weight s)"
  define hl where "hl = float_sub 1 pd"
  define cf where "cf = (if 0 < available_models s
      then float_div (total_confidence s) (float_of_nat (available_models s)) else 0)"
  have v: "probability_pd (perform_late_fusion rs) = pd"
      "probability_healthy (perform_late_fusion rs) = hl"
      "confidence (perform_late_fusion rs) = cf"
    using True by (simp_all add: perform_late_fusion_def Let_def pd_def hl_def cf_def s_def)
  have q: "0 \<le> total_weighted_probability s / total_weight s"
      "total_weighted_probability s / total_weight s \<le> 1"
    using inv tw by simp_all
  have pd: "0 \<le> pd" "pd \<le> 1"
    using fl_unit_interval [OF q] by (simp_all add: pd_def float_div_def)
  have h: "0 \<le> 1 - pd" "1 - pd \<le> 1"
    using pd by simp_all
  have hl: "0 \<le> hl" "hl \<le> 1"
    using fl_unit_interval [OF h] by (simp_all add: hl_def float_sub_def)
  have "\<bar>fl (1 - pd) - (1 - pd)\<bar> \<le> 1 / 2 ^ 52"
    by (rule fl_error_unit [OF h])
  also have "\<dots> \<le> 1 / 10 ^ 9"
    by simp
  finally have sum: "\<bar>pd + hl - 1\<bar> \<le> 1 / 10 ^ 9"
    by (simp add: hl_def float_sub_def algebra_simps)
  have cf: "0 \<le> cf \<and> cf \<le> 1"
  proof (cases "0 < available_models s")
    case False
    then show ?thesis by (simp add: cf_def)
  next
    case True
    define m where "m = float_of_nat (available_models s)"
    have m: "total_confidence s \<le> m" "0 < m"
    proof -
      show "total_confidence s \<le> m"
      proof (cases "available_models s \<le> 2 ^ 53")
        case True
        then have "m = of_nat (available_models s)"
          unfolding m_def float_of_nat_def by (rule fl_of_nat)
        with inv(4) show ?thesis by simp
      next
        case False
        then have "(of_nat (2 ^ 53) :: rat) \<le> of_nat (available_models s)"
          by (simp only: of_nat_le_iff)
        then have "fl (of_nat (2 ^ 53)) \<le> m"
          unfolding m_def float_of_nat_def by (intro fl_mono) simp_all
        moreover have "fl (of_nat (2 ^ 53)) = (of_nat (2 ^ 53) :: rat)"
          by (rule fl_of_nat) simp
        ultimately show ?thesis
          using inv(5) by simp
      qed
      have "(of_nat 1 :: rat) \<le> of_nat (available_models s)"
        using True by (simp only: of_nat_le_iff)
      then have "fl (of_nat 1) \<le> m"
        unfolding m_def float_of_nat_def by (intro fl_mono) simp_all
      then show "0 < m"
        by (simp add: fl_1)
    qed
    have "0 \<le> total_confidence s / m" "total_confidence s / m \<le> 1"
      using inv(3) m by simp_all
    from fl_unit_interval [OF this] show ?thesis
      using True by (simp add: cf_def float_div_def m_def)
  qed
  show ?thesis
    unfolding v using sum pd hl cf by simp
qed

text \<open>
  The witness is scenario A of the specification: a voice result with probability 0.8
  and confidence 0.9 and a datscan result with probability 0.3 and confidence 0.5.
\<close>

theorem fused_verdict_in_range_witness:
  "valid_results
     [(''voice'', [''probability_pd'' \<mapsto> fl (8 / 10), ''probability_healthy'' \<mapsto> fl (2 / 10),
                  ''confidence'' \<mapsto> fl (9 / 10)]),
      (''datscan'', [''probability_pd'' \<mapsto> fl (3 / 10), ''probability_healthy'' \<mapsto> fl (7 / 10),
                    ''confidence'' \<mapsto> fl (5 / 10)])] \<and>
   0 \<le> probability_pd (perform_late_fusion
     [(''voice'', [''probability_pd'' \<mapsto> fl (8 / 10), ''probability_healthy'' \<mapsto> fl (2 / 10),
                  ''confidence'' \<mapsto> fl (9 / 10)]),
      (''datscan'', [''probability_pd'' \<mapsto> fl (3 / 10), ''probability_healthy'' \<mapsto> fl (7 / 10),
                    ''confidence'' \<mapsto> fl (5 / 10)])]) \<and>
   probability_pd (perform_late_fusion
     [(''voice'', [''probability_pd'' \<mapsto> fl (8 / 10), ''probability_healthy'' \<mapsto> fl (2 / 10),
                  ''confidence'' \<mapsto> fl (9 / 10)]),
      (''datscan'', [''probability_pd'' \<mapsto> fl (3 / 10), ''probability_healthy'' \<mapsto> fl (7 / 10),
                    ''confidence'' \<mapsto> fl (5 / 10)])]) \<le> 1 \<and>
   confidence (perform_late_fusion
     [(''voice'', [''probability_pd'' \<mapsto> fl (8 / 10), ''probability_healthy'' \<mapsto> fl (2 / 10),
                  ''confidence'' \<mapsto> fl (9 / 10)]),
      (''datscan'', [''probability_pd'' \<mapsto> fl (3 / 10), ''probability_healthy'' \<mapsto> fl (7 / 10),
                    ''confidence'' \<mapsto> fl (5 / 10)])]) \<le> 1"
proof -
  let ?rs = "[(''voice'', [''probability_pd'' \<mapsto> fl (8 / 10), ''probability_healthy'' \<mapsto> fl (2 / 10),
                  ''confidence'' \<mapsto> fl (9 / 10)]),
      (''datscan'', [''probability_pd'' \<mapsto> fl (3 / 10), ''probability_healthy'' \<mapsto> fl (7 / 10),
                    ''confidence'' \<mapsto> fl (5 / 10)])]"
  have v: "valid_results ?rs"
    by code_simp
  from fused_verdict_in_range [OF v] v show ?thesis
    by blast
qed

section \<open>Single-modality pass-through (C1)\<close>

text \<open>
  C1 says that fusing one valid result with a positive base weight and a confidence
  \<open>c > 0\<close> yields the \<open>probability_pd\<close> of that result exactly. The source computes
  \<open>(p * w) / w\<close> in floating point, where the weight does not cancel exactly: for scenario B
  of the specification (spiral, probability 0.4, confidence 0.6) the fused probability is
  the float just below 0.4 (\<^verbatim>\<open>0.39999999999999997\<close>).
\<close>

theorem pass_through_counterexample:
  "0 < base_weight_of ''spiral'' \<and> 0 < fl (6 / 10) \<and>
   float_add (fl (4 / 10)) (fl (6 / 10)) = 1 \<and>
   fl (4 / 10) = 7205759403792794 / 2 ^ 54 \<and>
   probability_pd (perform_late_fusion
     [(''spiral'', [''probability_pd'' \<mapsto> fl (4 / 10), ''probability_healthy'' \<mapsto> fl (6 / 10),
                   ''confidence'' \<mapsto> fl (6 / 10)])]) = 7205759403792793 / 2 ^ 54"
  by code_simp

text \<open>
  C1, amended. For every single valid modality result with probability \<open>p\<close> and a float
  confidence \<open>c\<close> that is at least \<open>2 powi - 1018\<close> (so that the effective weight is a
  normal float and does not underflow), fusing the one-element list yields a verdict whose
  confidence equals \<open>c\<close> exactly and whose \<open>probability_pd\<close> equals \<open>p\<close> up to rounding:
  they differ by at most \<open>2 powi - 51\<close>.
\<close>

theorem single_result_pass_through:
  assumes p: "r ''probability_pd'' = Some p" and c: "r ''confidence'' = Some c"
    and r: "valid_result r" and f: "is_float c" and n: "2 powi (- 1018) \<le> c"
  shows "\<bar>probability_pd (perform_late_fusion [(k, r)]) - p\<bar> \<le> 1 / 2 ^ 51 \<and>
         confidence (perform_late_fusion [(k, r)]) = c"
proof -
  have cr: "confidence_of r = c"
    using c by (simp add: confidence_of_def)
  have p01: "0 \<le> p" "p \<le> 1"
    using r p by (simp_all add: valid_result_def)
  define w where "w = adjusted_weight_of k r"
  have w: "2 powi (- 1022) \<le> w" "fl w = w"
    using adjusted_weight_normal [OF r, of k] n adjusted_weight_float [OF r, of k]
    by (simp_all add: cr w_def)
  have w0: "0 < w"
    using w(1) by (rule less_le_trans [OF powi2_pos])
  have s: "fusion_loop [(k, r)] =
     \<lparr>total_weighted_probability = float_mul p w, total_weight = w,
      total_confidence = c, available_models = 1\<rparr>"
    using single_result_vars [OF p r, of k] f by (simp add: cr w_def)
  have c0: "0 \<le> c"
    using n by (rule order_trans [OF less_imp_le [OF powi2_pos]])
  have "float_div c (float_of_nat 1) = fl c"
    by (simp add: float_div_def float_of_nat_def fl_1)
  then have cf: "float_div c (float_of_nat 1) = c"
    using f by (simp add: is_float_def)
  have pd: "probability_pd (perform_late_fusion [(k, r)]) = fl (fl (p * w) / w)"
    using w0 by (simp add: perform_late_fusion_def s Let_def float_div_def float_mul_def)
  have cn: "confidence (perform_late_fusion [(k, r)]) = c"
    using w0 cf by (simp add: perform_late_fusion_def s Let_def)
  show ?thesis
    unfolding pd cn using quotient_rounding [OF p01 w] by simp
qed

theorem single_result_pass_through_witness:
  "2 powi (- 1018) \<le> fl (6 / 10) \<and>
   \<bar>probability_pd (perform_late_fusion
      [(''spiral'', [''probability_pd'' \<mapsto> fl (4 / 10), ''probability_healthy'' \<mapsto> fl (6 / 10),
                    ''confidence'' \<mapsto> fl (6 / 10)])]) - fl (4 / 10)\<bar> \<le> 1 / 2 ^ 51 \<and>
   confidence (perform_late_fusion
      [(''spiral'', [''probability_pd'' \<mapsto> fl (4 / 10), ''probability_healthy'' \<mapsto> fl (6 / 10),
                    ''confidence'' \<mapsto> fl (6 / 10)])]) = fl (6 / 10)"
proof -
  let ?r = "[''probability_pd'' \<mapsto> fl (4 / 10), ''probability_healthy'' \<mapsto> fl (6 / 10),
             ''confidence'' \<mapsto> fl (6 / 10)]"
  have p: "?r ''probability_pd'' = Some (fl (4 / 10))" and c: "?r ''confidence'' = Some (fl (6 / 10))"
    by simp_all
  have r: "valid_result ?r"
    by code_simp
  have f: "is_float (fl (6 / 10))"
    by code_simp
  have n: "2 powi (- 1018) \<le> fl (6 / 10)"
    by code_simp
  from single_result_pass_through [OF p c r f n, of "''spiral''"] n show ?thesis
    by blast
qed

section \<open>Order of the results (C5)\<close>

text \<open>
  C5 says that the fused verdict is identical, field by field, whatever the order of the
  results. The source sums floats in the order of the dict, and float addition is not
  associative: the three well-formed results of \<open>order_example\<close> have the exact weighted
  average 0.5; in the order voice, datscan, spiral the fused probability is the float just
  above 0.5 and the prediction is 1, in the order spiral, voice, datscan the fused
  probability is 0.5 and the prediction is 0.
\<close>

theorem order_dependence_counterexample:
  "well_formed_results order_example \<and> valid_results order_example \<and>
   prediction (perform_late_fusion order_example) = 1 \<and>
   prediction (perform_late_fusion order_example_rotated) = 0 \<and>
   probability_pd (perform_late_fusion order_example) = 4503599627370497 / 2 ^ 53 \<and>
   probability_pd (perform_late_fusion order_example_rotated) = 1 / 2"
  by code_simp

text \<open>
  C5, amended. For every list of at most 16 valid results whose exact total weight is at
  least \<open>1/1024\<close>, and every reordering of it, the fused \<open>probability_pd\<close>,
  \<open>probability_healthy\<close> and \<open>confidence\<close> of the two orders differ by at most \<open>1e-9\<close>,
  and the predictions are equal unless the fused probability is within \<open>1e-9\<close> of the
  threshold. For two valid results with float confidences the two orders give the
  identical verdict.
\<close>

theorem order_independence_up_to_rounding:
  assumes v: "valid_results rs" and l: "length rs \<le> 16" and d: "1 / 1024 \<le> exact_weight_sum rs"
    and m: "mset rs' = mset rs"
  shows "\<bar>probability_pd (perform_late_fusion rs') - probability_pd (perform_late_fusion rs)\<bar>
           \<le> 1 / 10 ^ 9 \<and>
         \<bar>probability_healthy (perform_late_fusion rs') -
            probability_healthy (perform_late_fusion rs)\<bar> \<le> 1 / 10 ^ 9 \<and>
         \<bar>confidence (perform_late_fusion rs') - confidence (perform_late_fusion rs)\<bar>
           \<le> 1 / 10 ^ 9 \<and>
         (1 / 10 ^ 9 < \<bar>probability_pd (perform_late_fusion rs) - 1 / 2\<bar> \<longrightarrow>
            prediction (perform_late_fusion rs') = prediction (perform_late_fusion rs)) \<and>
         (valid_result r1 \<and> valid_result r2 \<and> is_float (confidence_of r1) \<and>
          is_float (confidence_of r2) \<longrightarrow>
            perform_late_fusion [(k1, r1), (k2, r2)] = perform_late_fusion [(k2, r2), (k1, r1)])"
proof -
  have v': "valid_results rs'" and l': "length rs' \<le> 16"
    using valid_permutation [OF m v] l by simp_all
  have e: "exact_weight_sum rs' = exact_weight_sum rs"
      "exact_probability_pd rs' = exact_probability_pd rs"
      "exact_confidence rs' = exact_confidence rs"
    using exact_permutation [OF m] by simp_all
  have d': "1 / 1024 \<le> exact_weight_sum rs'"
    using d by (simp only: e)
  note c = verdict_close_to_exact [OF v l d]
  note c' = verdict_close_to_exact [OF v' l' d', unfolded e]
  have w: "0 < total_weight (fusion_loop rs)" "0 < total_weight (fusion_loop rs')"
    using fused_close_to_exact [OF v l d] fused_close_to_exact [OF v' l' d'] by simp_all
  have 1: "\<bar>probability_pd (perform_late_fusion rs') - probability_pd (perform_late_fusion rs)\<bar>
      \<le> 1 / 10 ^ 9"
    by (rule close_pair [of _ "exact_probability_pd rs" "3 / 10 ^ 10"]) (use c c' in simp_all)
  have 2: "\<bar>probability_healthy (perform_late_fusion rs') -
      probability_healthy (perform_late_fusion rs)\<bar> \<le> 1 / 10 ^ 9"
    by (rule close_pair [of _ "1 - exact_probability_pd rs" "4 / 10 ^ 10"]) (use c c' in simp_all)
  have 3: "\<bar>confidence (perform_late_fusion rs') - confidence (perform_late_fusion rs)\<bar>
      \<le> 1 / 10 ^ 9"
    by (rule close_pair [of _ "exact_confidence rs" "1 / 10 ^ 10"]) (use c c' in simp_all)
  have p: "prediction (perform_late_fusion rs) =
        (if 1 / 2 < probability_pd (perform_late_fusion rs) then 1 else 0)"
      "prediction (perform_late_fusion rs') =
        (if 1 / 2 < probability_pd (perform_late_fusion rs') then 1 else 0)"
    using w by (simp_all add: perform_late_fusion_def Let_def)
  have 4: "1 / 10 ^ 9 < \<bar>probability_pd (perform_late_fusion rs) - 1 / 2\<bar> \<longrightarrow>
      prediction (perform_late_fusion rs') = prediction (perform_late_fusion rs)"
    unfolding p using 1 by (auto simp: abs_le_iff abs_less_iff split: if_splits)
  have 5: "valid_result r1 \<and> valid_result r2 \<and> is_float (confidence_of r1) \<and>
          is_float (confidence_of r2) \<longrightarrow>
            perform_late_fusion [(k1, r1), (k2, r2)] = perform_late_fusion [(k2, r2), (k1, r1)]"
    using two_results_swap by blast
  from 1 2 3 4 5 show ?thesis
    by blast
qed

theorem order_independence_up_to_rounding_witness:
  "valid_results order_example \<and> 1 / 1024 \<le> exact_weight_sum order_example \<and>
   mset order_example_rotated = mset order_example \<and>
   \<bar>probability_pd (perform_late_fusion order_example_rotated) -
      probability_pd (perform_late_fusion order_example)\<bar> \<le> 1 / 10 ^ 9 \<and>
   \<bar>confidence (perform_late_fusion order_example_rotated) -
      confidence (perform_late_fusion order_example)\<bar> \<le> 1 / 10 ^ 9 \<and>
   perform_late_fusion
     [(''voice'', [''probability_pd'' \<mapsto> 0, ''confidence'' \<mapsto> 1 / 2]),
      (''datscan'', [''probability_pd'' \<mapsto> 3 / 4, ''confidence'' \<mapsto> 1])] =
   perform_late_fusion
     [(''datscan'', [''probability_pd'' \<mapsto> 3 / 4, ''confidence'' \<mapsto> 1]),
      (''voice'', [''probability_pd'' \<mapsto> 0, ''confidence'' \<mapsto> 1 / 2])]"
proof -
  have v: "valid_results order_example"
    by code_simp
  have l: "length order_example \<le> 16"
    by (simp add: order_example_def)
  have d: "1 / 1024 \<le> exact_weight_sum order_example"
    by code_simp
  have m: "mset order_example_rotated = mset order_example"
    by (simp add: order_example_def order_example_rotated_def)
  have r: "valid_result [''probability_pd'' \<mapsto> 0, ''confidence'' \<mapsto> 1 / 2]"
      "valid_result [''probability_pd'' \<mapsto> 3 / 4, ''confidence'' \<mapsto> 1]"
      "is_float (confidence_of [''probability_pd'' \<mapsto> 0, ''confidence'' \<mapsto> 1 / 2])"
      "is_float (confidence_of [''probability_pd'' \<mapsto> 3 / 4, ''confidence'' \<mapsto> 1])"
    by code_simp+
  from order_independence_up_to_rounding [OF v l d m,
      of "[''probability_pd'' \<mapsto> 0, ''confidence'' \<mapsto> 1 / 2]"
         "[''probability_pd'' \<mapsto> 3 / 4, ''confidence'' \<mapsto> 1]" "''voice''" "''datscan''"]
    v d m r
  show ?thesis
    by blast
qed

section \<open>Increasing one confidence (C8)\<close>

text \<open>
  C8 says that strictly increasing the confidence of a contributing result whose
  \<open>probability_pd\<close> is strictly above the fused one strictly increases the fused
  \<open>probability_pd\<close>. In floating point it does not: with a voice result of probability
  0.75 and a datscan result of probability 0.25 and confidence 1, raising the voice
  confidence from 0.5 to the next float above 0.5 lowers the fused probability from
  \<^verbatim>\<open>0.33333333333333337\<close> to \<^verbatim>\<open>0.3333333333333333\<close>.
\<close>

theorem confidence_increase_counterexample:
  "valid_results (monotonicity_example (1 / 2)) \<and>
   valid_results (monotonicity_example (4503599627370497 / 2 ^ 53)) \<and>
   (1 / 2 :: rat) < 4503599627370497 / 2 ^ 53 \<and>
   is_float (4503599627370497 / 2 ^ 53) \<and>
   probability_pd (perform_late_fusion (monotonicity_example (1 / 2))) =
     3002399751580331 / 2 ^ 53 \<and>
   probability_pd (perform_late_fusion (monotonicity_example (4503599627370497 / 2 ^ 53))) =
     6004799503160661 / 2 ^ 54 \<and>
   (3002399751580331 / 2 ^ 53 :: rat) < 3 / 4 \<and>
   (6004799503160661 / 2 ^ 54 :: rat) < 3002399751580331 / 2 ^ 53"
  by code_simp

text \<open>
  C8, amended. For every list of at most 16 valid results whose exact total weight is at
  least \<open>1/1024\<close>, strictly increasing the confidence of one contributing result (up to at
  most 1) whose \<open>probability_pd\<close> exceeds the fused \<open>probability_pd\<close> by more than
  \<open>3e-10\<close> strictly increases the exact (unrounded) weighted average, and the computed
  fused \<open>probability_pd\<close>, which stays within \<open>3e-10\<close> of that average, decreases by less
  than \<open>6e-10\<close> if at all; symmetrically for a result whose \<open>probability_pd\<close> is more
  than \<open>3e-10\<close> below the fused value.
\<close>

theorem confidence_monotone_up_to_rounding:
  assumes v: "valid_results (xs @ (k, r) # ys)" and p: "r ''probability_pd'' = Some p"
    and c: "confidence_of r < c'" "c' \<le> 1"
    and l: "length (xs @ (k, r) # ys) \<le> 16"
    and d: "1 / 1024 \<le> exact_weight_sum (xs @ (k, r) # ys)"
  shows "(probability_pd (perform_late_fusion (xs @ (k, r) # ys)) + 3 / 10 ^ 10 < p \<longrightarrow>
            exact_probability_pd (xs @ (k, r) # ys) <
              exact_probability_pd (xs @ (k, r(''confidence'' \<mapsto> c')) # ys) \<and>
            probability_pd (perform_late_fusion (xs @ (k, r) # ys)) - 6 / 10 ^ 10 <
              probability_pd (perform_late_fusion (xs @ (k, r(''confidence'' \<mapsto> c')) # ys))) \<and>
         (p < probability_pd (perform_late_fusion (xs @ (k, r) # ys)) - 3 / 10 ^ 10 \<longrightarrow>
            exact_probability_pd (xs @ (k, r(''confidence'' \<mapsto> c')) # ys) <
              exact_probability_pd (xs @ (k, r) # ys) \<and>
            probability_pd (perform_late_fusion (xs @ (k, r(''confidence'' \<mapsto> c')) # ys)) <
              probability_pd (perform_late_fusion (xs @ (k, r) # ys)) + 6 / 10 ^ 10) \<and>
         \<bar>probability_pd (perform_late_fusion (xs @ (k, r) # ys)) -
            exact_probability_pd (xs @ (k, r) # ys)\<bar> \<le> 3 / 10 ^ 10 \<and>
         \<bar>probability_pd (perform_late_fusion (xs @ (k, r(''confidence'' \<mapsto> c')) # ys)) -
            exact_probability_pd (xs @ (k, r(''confidence'' \<mapsto> c')) # ys)\<bar> \<le> 3 / 10 ^ 10"
proof -
  define rs where "rs = xs @ (k, r) # ys"
  define rs' where "rs' = xs @ (k, r(''confidence'' \<mapsto> c')) # ys"
  define e where "e = base_weight_of k * (c' - confidence_of r)"
  define F where "F = probability_pd (perform_late_fusion rs)"
  define F' where "F' = probability_pd (perform_late_fusion rs')"
  define E where "E = exact_probability_pd rs"
  define E' where "E' = exact_probability_pd rs'"
  have e0: "0 < e"
    unfolding e_def using base_weight_lower [of k] c(1) by (intro mult_pos_pos) simp_all
  have N': "exact_weighted_sum rs' = exact_weighted_sum rs + p * e"
    and D': "exact_weight_sum rs' = exact_weight_sum rs + e"
    using exact_sums_update [of r p xs k c' ys, OF p] by (simp_all add: rs_def rs'_def e_def)
  have v': "valid_results rs'"
    unfolding rs'_def by (rule valid_results_update [OF v c])
  have l': "length rs' \<le> 16"
    using l by (simp add: rs'_def)
  have d': "1 / 1024 \<le> exact_weight_sum rs'"
    using d e0 by (simp add: D' rs_def [symmetric])
  have D0: "0 < exact_weight_sum rs"
    using d by (simp add: rs_def [symmetric])
  have a: "\<bar>F - E\<bar> \<le> 3 / 10 ^ 10"
    using fused_close_to_exact [OF v l d] by (simp add: F_def E_def rs_def)
  have a': "\<bar>F' - E'\<bar> \<le> 3 / 10 ^ 10"
    using fused_close_to_exact [OF v' l' d'] by (simp add: F'_def E'_def)
  have E'eq: "E' = (exact_weighted_sum rs + p * e) / (exact_weight_sum rs + e)"
    by (simp add: E'_def exact_probability_pd_def N' D')
  have up: "E < p \<Longrightarrow> E < E'"
    unfolding E'eq E_def exact_probability_pd_def by (rule average_shift_up [OF D0 e0])
  have down: "p < E \<Longrightarrow> E' < E"
    unfolding E'eq E_def exact_probability_pd_def by (rule average_shift_down [OF D0 e0])
  have 1: "F + 3 / 10 ^ 10 < p \<longrightarrow> E < E' \<and> F - 6 / 10 ^ 10 < F'"
  proof
    assume "F + 3 / 10 ^ 10 < p"
    with a have "E < p" by linarith
    then have "E < E'" by (rule up)
    with a a' show "E < E' \<and> F - 6 / 10 ^ 10 < F'" by linarith
  qed
  have 2: "p < F - 3 / 10 ^ 10 \<longrightarrow> E' < E \<and> F' < F + 6 / 10 ^ 10"
  proof
    assume "p < F - 3 / 10 ^ 10"
    with a have "p < E" by linarith
    then have "E' < E" by (rule down)
    with a a' show "E' < E \<and> F' < F + 6 / 10 ^ 10" by linarith
  qed
  from 1 2 a a' show ?thesis
    unfolding F_def F'_def E_def E'_def rs_def rs'_def by blast
qed

theorem confidence_monotone_up_to_rounding_witness:
  "valid_results (monotonicity_example (1 / 2)) \<and>
   1 / 1024 \<le> exact_weight_sum (monotonicity_example (1 / 2)) \<and>
   probability_pd (perform_late_fusion (monotonicity_example (1 / 2))) + 3 / 10 ^ 10 < 3 / 4 \<and>
   exact_probability_pd (monotonicity_example (1 / 2)) <
     exact_probability_pd (monotonicity_example (4503599627370497 / 2 ^ 53)) \<and>
   probability_pd (perform_late_fusion (monotonicity_example (1 / 2))) - 6 / 10 ^ 10 <
     probability_pd (perform_late_fusion (monotonicity_example (4503599627370497 / 2 ^ 53)))"
proof -
  let ?r = "[''probability_pd'' \<mapsto> 3 / 4, ''probability_healthy'' \<mapsto> 1 / 4, ''confidence'' \<mapsto> (1 / 2 :: rat)]"
  let ?ys = "[(''datscan'', [''probability_pd'' \<mapsto> 1 / 4, ''probability_healthy'' \<mapsto> 3 / 4,
               ''confidence'' \<mapsto> (1 :: rat)])]"
  have a: "[] @ (''voice'', ?r) # ?ys = monotonicity_example (1 / 2)"
    by (simp add: monotonicity_example_def)
  have b: "[] @ (''voice'', ?r(''confidence'' \<mapsto> 4503599627370497 / 2 ^ 53)) # ?ys =
      monotonicity_example (4503599627370497 / 2 ^ 53)"
    by (simp add: monotonicity_example_def)
  have v: "valid_results ([] @ (''voice'', ?r) # ?ys)"
    unfolding a by code_simp
  have p: "?r ''probability_pd'' = Some (3 / 4)"
    by simp
  have c: "confidence_of ?r < 4503599627370497 / 2 ^ 53" "(4503599627370497 / 2 ^ 53 :: rat) \<le> 1"
    by (simp_all add: confidence_of_def)
  have l: "length ([] @ (''voice'', ?r) # ?ys) \<le> 16"
    by simp
  have d: "1 / 1024 \<le> exact_weight_sum ([] @ (''voice'', ?r) # ?ys)"
    unfolding a by code_simp
  have h: "probability_pd (perform_late_fusion (monotonicity_example (1 / 2))) + 3 / 10 ^ 10 < 3 / 4"
    by code_simp
  note t = confidence_monotone_up_to_rounding [OF v p c l d, unfolded a b]
  from t h v d show ?thesis
    unfolding a by blast
qed

end
